theory Spec2Isabelle
  imports Complex_Main "HOL-Library.Sublist"
begin

section \<open>Conventions of the embedding\<close>

text \<open>
  The engine of \<^verbatim>\<open>src/js/audio-engine.js\<close> computes on JavaScript numbers. A finite
  number is the real number it denotes: every finite sample, rate and coefficient is a
  \<^typ>\<open>real\<close>, a typed array is a list, and integer-valued loop counters are \<^typ>\<open>nat\<close> or
  \<^typ>\<open>int\<close>. The result of \<open>+\<close>, \<open>-\<close>, \<open>*\<close> or \<open>/\<close> is rounded to binary64 wherever an
  index, a count, a length or the outcome of a comparison is taken from it: the harmonic
  limit and the roll-off of the wave builder, the peak, the step and the rounded code of
  the quantizer, the sums of the signal-to-noise ratio, and the output length and the
  source position of the reconstruction. The results of \<^verbatim>\<open>Math.log\<close>, \<^verbatim>\<open>Math.pow\<close>,
  \<^verbatim>\<open>Math.sin\<close> and \<^verbatim>\<open>Math.cos\<close>, which the language leaves to the implementation, and the
  values that are only stored or returned (with the narrowing of a store into a
  \<^verbatim>\<open>Float32Array\<close>) are kept exact. Where the source can leave the finite numbers (an
  overflow, a division by zero, the logarithm of zero, a read past the end of an array)
  the model has an explicit branch.

  A call either returns or throws; \<^verbatim>\<open>new Float32Array(n)\<close> throws a \<^verbatim>\<open>RangeError\<close> for a
  negative or infinite \<^verbatim>\<open>n\<close> and allocates the empty array for \<^verbatim>\<open>NaN\<close>.
\<close>

datatype 'a completion = Normal 'a | Throw string

text \<open>\<^verbatim>\<open>s.startsWith(p)\<close>\<close>

definition startsWith :: "string \<Rightarrow> string \<Rightarrow> bool" where
  "startsWith s p = prefix p s"

text \<open>\<^verbatim>\<open>clamp = (x, lo, hi) => Math.min(hi, Math.max(lo, x))\<close> of \<^verbatim>\<open>src/js/utils.js\<close>\<close>

definition clamp :: "real \<Rightarrow> real \<Rightarrow> real \<Rightarrow> real" where
  "clamp x lo hi = min hi (max lo x)"

section \<open>Numbers, random numbers and typed arrays\<close>

text \<open>
  A JavaScript number that may fail to be finite: the value of an expression in which the
  source divides by zero, takes the logarithm of zero or reads past the end of an array.
\<close>

datatype jsnum = Num real | PosInfinity | NegInfinity | NaN

text \<open>\<^verbatim>\<open>Math.round\<close> rounds to the nearest integer, a tie towards \<open>+\<infinity>\<close>.\<close>

definition Math_round :: "real \<Rightarrow> int" where
  "Math_round x = \<lfloor>x + 1 / 2\<rfloor>"



text \<open>
  \<^verbatim>\<open>Math.random\<close> reads a hidden generator. Its state is the sequence of the numbers it
  is still to return: a call returns the head and leaves the tail.
\<close>

type_synonym rng = "nat \<Rightarrow> real"

definition Math_random :: "rng \<Rightarrow> real \<times> rng" where
  "Math_random g = (g 0, (\<lambda>n. g (Suc n)))"

text \<open>
  A store of an integer into an \<^verbatim>\<open>Int8Array\<close>, \<^verbatim>\<open>Int16Array\<close> or \<^verbatim>\<open>Int32Array\<close> (width
  \<open>w\<close>) or into a \<^verbatim>\<open>Uint8Array\<close> keeps it modulo \<open>2 ^ w\<close>.
\<close>

definition ToInt :: "nat \<Rightarrow> int \<Rightarrow> int" where
  "ToInt w q = (q + 2 ^ (w - 1)) mod 2 ^ w - 2 ^ (w - 1)"

definition ToUint8 :: "int \<Rightarrow> int" where
  "ToUint8 q = q mod 256"

text \<open>The decimal digits of an integer, as a template literal prints it.\<close>

function show_nat :: "nat \<Rightarrow> string" where
  "show_nat n =
     (if n < 10 then [''0123456789'' ! n]
      else show_nat (n div 10) @ [''0123456789'' ! (n mod 10)])"
  by pat_completeness auto
termination
  by (relation "measure id") auto

declare show_nat.simps [simp del]

definition show_int :: "int \<Rightarrow> string" where
  "show_int k = (if k < 0 then CHR ''-'' # show_nat (nat (- k)) else show_nat (nat k))"

text \<open>
  Strings are sequences of bytes, a character outside ASCII in UTF-8: the Greek letter of
  \<^verbatim>\<open>'\<mu>-law8'\<close> is the two bytes \<open>0xCE 0xBC\<close>. A well-formed string starts with that letter
  exactly when its encoding starts with these bytes.
\<close>

definition mu_letter :: string where
  "mu_letter = [CHR 0xCE, CHR 0xBC]"

section \<open>Rounding to binary64\<close>

text \<open>
  A JavaScript number is an IEEE 754 binary64 value, and the result of \<open>+\<close>, \<open>-\<close>, \<open>*\<close> and
  \<open>/\<close> on finite numbers is the exact result rounded to the nearest binary64 value, a tie
  to the one with an even significand. \<open>binary64\<close> is this rounding on the reals: the
  exponent of the binade of \<open>x\<close> (not below \<open>-1022\<close>, where the subnormal numbers start),
  and the multiple of \<open>2 ^ (exponent - 52)\<close> nearest to \<open>x\<close>. A result of magnitude
  \<open>2 ^ 1024\<close> or more after rounding is an infinity: \<open>fl\<close> is the rounding with this
  overflow.
\<close>

definition round_even :: "real \<Rightarrow> int" where
  "round_even r =
     (if r - of_int \<lfloor>r\<rfloor> < 1 / 2 then \<lfloor>r\<rfloor>
      else if 1 / 2 < r - of_int \<lfloor>r\<rfloor> then \<lfloor>r\<rfloor> + 1
      else if even \<lfloor>r\<rfloor> then \<lfloor>r\<rfloor> else \<lfloor>r\<rfloor> + 1)"

definition binary64_exponent :: "real \<Rightarrow> int" where
  "binary64_exponent x = max (- 1022) \<lfloor>log 2 \<bar>x\<bar>\<rfloor>"

definition binary64 :: "real \<Rightarrow> real" where
  "binary64 x =
     (if x = 0 then 0
      else of_int (round_even (x / 2 powi (binary64_exponent x - 52))) *
           2 powi (binary64_exponent x - 52))"

definition fl :: "real \<Rightarrow> jsnum" where
  "fl x =
     (if 2 ^ 1024 \<le> \<bar>binary64 x\<bar> then (if 0 < x then PosInfinity else NegInfinity)
      else Num (binary64 x))"

text \<open>
  The arithmetic of numbers that may be infinite or \<^verbatim>\<open>NaN\<close>. A finite result is rounded; a
  zero has no sign here, and a finite number divided by zero takes the sign of the
  dividend. A comparison with \<^verbatim>\<open>NaN\<close> is false.
\<close>

fun js_sign :: "jsnum \<Rightarrow> int" where
  "js_sign (Num a) = (if a < 0 then - 1 else if 0 < a then 1 else 0)"
| "js_sign PosInfinity = 1"
| "js_sign NegInfinity = - 1"
| "js_sign NaN = 0"

definition js_signed_infinity :: "int \<Rightarrow> jsnum" where
  "js_signed_infinity s = (if s = 0 then NaN else if 0 < s then PosInfinity else NegInfinity)"


fun js_add :: "jsnum \<Rightarrow> jsnum \<Rightarrow> jsnum" where
  "js_add (Num a) (Num b) = fl (a + b)"
| "js_add NaN v = NaN"
| "js_add v NaN = NaN"
| "js_add PosInfinity NegInfinity = NaN"
| "js_add NegInfinity PosInfinity = NaN"
| "js_add PosInfinity v = PosInfinity"
| "js_add v PosInfinity = PosInfinity"
| "js_add NegInfinity v = NegInfinity"
| "js_add v NegInfinity = NegInfinity"


fun js_mul :: "jsnum \<Rightarrow> jsnum \<Rightarrow> jsnum" where
  "js_mul (Num a) (Num b) = fl (a * b)"
| "js_mul NaN v = NaN"
| "js_mul v NaN = NaN"
| "js_mul a b = js_signed_infinity (js_sign a * js_sign b)"

fun js_div :: "jsnum \<Rightarrow> jsnum \<Rightarrow> jsnum" where
  "js_div (Num a) (Num b) = (if b = 0 then js_signed_infinity (js_sign (Num a)) else fl (a / b))"
| "js_div NaN v = NaN"
| "js_div v NaN = NaN"
| "js_div (Num a) v = Num 0"
| "js_div a (Num b) = js_signed_infinity (js_sign a * (if b < 0 then - 1 else 1))"
| "js_div a b = NaN"


section \<open>The envelope generator\<close>

record adsr_params =
  attack :: real
  decay :: real
  sustain :: real
  release :: real

text \<open>
  The four loops of \<^verbatim>\<open>generateADSR\<close> share the counter \<open>i\<close> and the array; each runs its own
  counter \<open>j\<close> up to the number of samples of its phase and stores a value that depends
  on \<open>j\<close>. Inside a loop the phase has more than \<open>j \<ge> 0\<close> samples, so no quotient by the
  number of samples of the phase divides by zero.
\<close>

function adsr_phase ::
  "(int \<Rightarrow> real) \<Rightarrow> int \<Rightarrow> int \<Rightarrow> int \<Rightarrow> nat \<times> real list \<Rightarrow> nat \<times> real list" where
  "adsr_phase val phaseSamples len j (i, envelope) =
     (if j < phaseSamples \<and> int i < len
      then adsr_phase val phaseSamples len (j + 1) (Suc i, envelope[i := val j])
      else (i, envelope))"
  by pat_completeness auto
termination
  by (relation "measure (\<lambda>(val, phaseSamples, len, j, s). nat (phaseSamples - j))") auto

declare adsr_phase.simps [simp del]

text \<open>
  \<^verbatim>\<open>generateADSR(length, sampleRate, params)\<close>; the engine calls it with the length of a
  buffer it has created, which is not negative.
\<close>

definition generateADSR :: "int \<Rightarrow> real \<Rightarrow> adsr_params \<Rightarrow> real list" where
  "generateADSR len sampleRate params =
     (let envelope = replicate (nat len) 0;
          attackSamples = \<lfloor>attack params * sampleRate\<rfloor>;
          decaySamples = \<lfloor>decay params * sampleRate\<rfloor>;
          releaseSamples = \<lfloor>release params * sampleRate\<rfloor>;
          sustainSamples = len - attackSamples - decaySamples - releaseSamples;
          s = (0, envelope);
          s = adsr_phase (\<lambda>j. of_int j / of_int attackSamples) attackSamples len 0 s;
          s = adsr_phase (\<lambda>j. 1.0 - (1.0 - sustain params) * (of_int j / of_int decaySamples))
                decaySamples len 0 s;
          s = adsr_phase (\<lambda>j. sustain params) sustainSamples len 0 s;
          s = adsr_phase (\<lambda>j. sustain params * (1 - of_int j / of_int releaseSamples))
                releaseSamples len 0 s
      in snd s)"

section \<open>Band-limited periodic waves\<close>

text \<open>
  Of the audio context the engine reads the sample rate and, when it creates one, sets the
  length. The \<^verbatim>\<open>PeriodicWave\<close> handed to the platform is the pair of coefficient arrays.
\<close>

record audio_context =
  ctx_length :: int
  sampleRate :: real

record periodic_wave =
  pw_real :: "real list"
  pw_imag :: "real list"
  disableNormalization :: bool

text \<open>
  \<^verbatim>\<open>addHarm(k, A)\<close>: a sinusoid at harmonic \<open>k\<close> with magnitude \<open>A\<close> and phase \<open>phi\<close>, added
  to the two arrays.
\<close>

definition addHarm :: "real \<Rightarrow> nat \<Rightarrow> real \<Rightarrow> real list \<times> real list \<Rightarrow> real list \<times> real list" where
  "addHarm phi k A arrs =
     (case arrs of (re, im) \<Rightarrow> (re[k := re ! k + A * cos phi], im[k := im ! k + A * sin phi]))"

text \<open>
  \<^verbatim>\<open>Math.PI\<close> is the binary64 number nearest to \<open>\<pi>\<close>, and a decimal literal is the binary64
  number nearest to it. The sample rate of an audio context is positive and finite.
\<close>

definition Math_PI :: real where
  "Math_PI = binary64 pi"

text \<open>
  The roll-off of a harmonic at \<open>freq > nyquist * 0.8\<close>: its amplitude is multiplied by
  \<^verbatim>\<open>Math.max(0, 1 - ((freq - nyquist * 0.8) / (nyquist * 0.2)))\<close>. When \<open>nyquist * 0.2\<close> is
  zero the quotient is \<open>+\<infinity>\<close> (its numerator is positive) and the factor is 0; a quotient
  that overflows gives the factor 0 as well, which is what the rounded difference below
  gives for it.
\<close>

definition rolloff_factor :: "real \<Rightarrow> real \<Rightarrow> real" where
  "rolloff_factor freq nyquist =
     (if binary64 (nyquist * binary64 (2 / 10)) = 0 then 0
      else
        (let rolloff =
               binary64 (1 - binary64 (binary64 (freq - binary64 (nyquist * binary64 (8 / 10))) /
                                        binary64 (nyquist * binary64 (2 / 10))))
         in max 0 rolloff))"

text \<open>
  \<^verbatim>\<open>amplitude *= Math.max(0, rolloff)\<close> under the test \<^verbatim>\<open>freq > nyquist * 0.8\<close>, for the
  harmonic \<open>n\<close> of the fundamental \<open>f0\<close>.
\<close>

definition rolled_off :: "audio_context \<Rightarrow> real \<Rightarrow> int \<Rightarrow> real \<Rightarrow> real" where
  "rolled_off ctx f0 n amplitude =
     (let freq = binary64 (of_int n * f0);
          nyquist = binary64 (sampleRate ctx / 2)
      in if freq > binary64 (nyquist * binary64 (8 / 10))
         then binary64 (amplitude * rolloff_factor freq nyquist)
         else amplitude)"

text \<open>
  The amplitude the body of each loop computes for the harmonic \<open>n\<close>, after the roll-off.
  In the triangle loop \<open>n\<close> is odd, so \<^verbatim>\<open>(n - 1) / 2\<close> is an integer; in all three loops
  \<open>n\<close> is at least 1.
\<close>

definition square_amplitude :: "audio_context \<Rightarrow> real \<Rightarrow> int \<Rightarrow> real" where
  "square_amplitude ctx f0 n =
     (let scale = binary64 (4 / Math_PI);
          amplitude = binary64 (scale * binary64 (1 / of_int n))
      in rolled_off ctx f0 n amplitude)"

definition triangle_amplitude :: "audio_context \<Rightarrow> real \<Rightarrow> int \<Rightarrow> real" where
  "triangle_amplitude ctx f0 n =
     (let scale = binary64 (8 / binary64 (Math_PI * Math_PI));
          sign = (if ((n - 1) div 2) mod 2 = 0 then 1 else - 1);
          amplitude = binary64 (binary64 (scale * sign) *
                                binary64 (1 / binary64 (of_int n * of_int n)))
      in rolled_off ctx f0 n amplitude)"

definition sawtooth_amplitude :: "audio_context \<Rightarrow> real \<Rightarrow> int \<Rightarrow> real" where
  "sawtooth_amplitude ctx f0 n =
     (let scale = binary64 (2 / Math_PI);
          sign = (if (n + 1) mod 2 = 0 then 1 else - 1);
          amplitude = binary64 (binary64 (scale * sign) * binary64 (1 / of_int n))
      in rolled_off ctx f0 n amplitude)"

text \<open>The three loops over the harmonics \<open>n \<le> kMax\<close>: odd ones, odd ones, all.\<close>

function square_loop ::
  "audio_context \<Rightarrow> real \<Rightarrow> real \<Rightarrow> int \<Rightarrow> int \<Rightarrow> real list \<times> real list \<Rightarrow> real list \<times> real list" where
  "square_loop ctx f0 phi kMax n arrs =
     (if n \<le> kMax then
        square_loop ctx f0 phi kMax (n + 2)
          (if square_amplitude ctx f0 n > 0
           then addHarm phi (nat n) (square_amplitude ctx f0 n) arrs else arrs)
      else arrs)"
  by pat_completeness auto
termination
  by (relation "measure (\<lambda>(ctx, f0, phi, kMax, n, arrs). nat (kMax + 1 - n))") auto

declare square_loop.simps [simp del]

function triangle_loop ::
  "audio_context \<Rightarrow> real \<Rightarrow> real \<Rightarrow> int \<Rightarrow> int \<Rightarrow> real list \<times> real list \<Rightarrow> real list \<times> real list" where
  "triangle_loop ctx f0 phi kMax n arrs =
     (if n \<le> kMax then
        triangle_loop ctx f0 phi kMax (n + 2)
          (if \<bar>triangle_amplitude ctx f0 n\<bar> > binary64 0.00001
           then addHarm phi (nat n) (triangle_amplitude ctx f0 n) arrs else arrs)
      else arrs)"
  by pat_completeness auto
termination
  by (relation "measure (\<lambda>(ctx, f0, phi, kMax, n, arrs). nat (kMax + 1 - n))") auto

declare triangle_loop.simps [simp del]

function sawtooth_loop ::
  "audio_context \<Rightarrow> real \<Rightarrow> real \<Rightarrow> int \<Rightarrow> int \<Rightarrow> real list \<times> real list \<Rightarrow> real list \<times> real list" where
  "sawtooth_loop ctx f0 phi kMax n arrs =
     (if n \<le> kMax then
        sawtooth_loop ctx f0 phi kMax (n + 1)
          (if \<bar>sawtooth_amplitude ctx f0 n\<bar> > binary64 0.00001
           then addHarm phi (nat n) (sawtooth_amplitude ctx f0 n) arrs else arrs)
      else arrs)"
  by pat_completeness auto
termination
  by (relation "measure (\<lambda>(ctx, f0, phi, kMax, n, arrs). nat (kMax + 1 - n))") auto

declare sawtooth_loop.simps [simp del]

text \<open>
  \<^verbatim>\<open>kMax\<close>: the floor of the binary64 quotient of \<open>maxFreq = nyquist * 0.9\<close> by
  \<^verbatim>\<open>Math.max(1, f0)\<close>, at least 1. The divisor is at least 1, so no result overflows.
\<close>

definition harmonic_limit :: "audio_context \<Rightarrow> real \<Rightarrow> bool \<Rightarrow> int" where
  "harmonic_limit ctx f0 limitHarmonics =
     (let sr = sampleRate ctx;
          nyquist = binary64 (sr / 2);
          maxFreq = binary64 (nyquist * binary64 (9 / 10))
      in if limitHarmonics then max 1 \<lfloor>binary64 (maxFreq / max 1 f0)\<rfloor> else 256)"

text \<open>
  \<^verbatim>\<open>buildPeriodicWave(ctx, shape, f0, phaseDeg, limitHarmonics)\<close>. The coefficients stored
  into the two arrays are written as the reals they approximate.
\<close>

definition buildPeriodicWave ::
  "audio_context \<Rightarrow> string \<Rightarrow> real \<Rightarrow> real \<Rightarrow> bool \<Rightarrow> periodic_wave" where
  "buildPeriodicWave ctx shape f0 phaseDeg limitHarmonics =
     (let kMax = harmonic_limit ctx f0 limitHarmonics;
          arraySize = max (kMax + 1) 8192;
          re = replicate (nat arraySize) 0;
          im = replicate (nat arraySize) 0;
          phi = phaseDeg * pi / 180;
          arrs =
            (if shape = ''sine'' then addHarm phi 1 1 (re, im)
             else if shape = ''square'' then square_loop ctx f0 phi kMax 1 (re, im)
             else if shape = ''triangle'' then triangle_loop ctx f0 phi kMax 1 (re, im)
             else if shape = ''sawtooth'' then sawtooth_loop ctx f0 phi kMax 1 (re, im)
             else addHarm phi 1 1 (re, im))
      in \<lparr>pw_real = fst arrs, pw_imag = snd arrs, disableNormalization = False\<rparr>)"

section \<open>Instrument voices\<close>

text \<open>
  A harmonic of a voice is its ratio to the fundamental and its amplitude. The buffer a
  voice returns is the array of its single channel, of the \<open>floor (duration * sampleRate)\<close>
  samples the engine asks \<^verbatim>\<open>ctx.createBuffer\<close> for. Whether the platform accepts the request
  is the platform's matter (see the renderer); for a request of no samples the array is
  empty and the loops do not run. Inside a loop \<open>sampleRate\<close> is not zero.
\<close>

type_synonym harmonic = "real \<times> real"

definition piano_harmonics :: "harmonic list" where
  "piano_harmonics =
     [(1, 1.0), (2, 0.5), (3, 0.3), (4, 0.2), (5, 0.15), (6, 0.1), (7, 0.08), (8, 0.05)]"

definition violin_harmonics :: "harmonic list" where
  "violin_harmonics =
     [(1, 1.0), (2, 0.45), (3, 0.3), (4, 0.25), (5, 0.18), (6, 0.12), (7, 0.08), (8, 0.06),
      (9, 0.04), (10, 0.03)]"

text \<open>The inner loop of \<^verbatim>\<open>createPianoSound\<close>: the sum over the harmonics at time \<open>t\<close>.\<close>

fun piano_sum :: "real \<Rightarrow> real \<Rightarrow> harmonic list \<Rightarrow> real \<Rightarrow> real" where
  "piano_sum frequency t [] sample = sample"
| "piano_sum frequency t (h # hs) sample =
     (let freq = frequency * fst h;
          stretchedFreq = freq * (1.0003 powr fst h)
      in piano_sum frequency t hs (sample + snd h * sin (2 * pi * stretchedFreq * t)))"

function piano_loop ::
  "real \<Rightarrow> real \<Rightarrow> real \<Rightarrow> real list \<Rightarrow> int \<Rightarrow> nat \<Rightarrow> real list \<Rightarrow> real list" where
  "piano_loop sr frequency amplitude envelope samples i data =
     (if int i < samples then
        (let t = real i / sr;
             sample = piano_sum frequency t piano_harmonics 0
         in piano_loop sr frequency amplitude envelope samples (Suc i)
              (data[i := sample * envelope ! i * amplitude * 0.3]))
      else data)"
  by pat_completeness auto
termination
  by (relation "measure (\<lambda>(sr, frequency, amplitude, envelope, samples, i, data).
        nat (samples - int i))") auto

declare piano_loop.simps [simp del]

definition createPianoSound :: "audio_context \<Rightarrow> real \<Rightarrow> real \<Rightarrow> real \<Rightarrow> real list" where
  "createPianoSound ctx frequency duration amplitude =
     (let sr = sampleRate ctx;
          samples = \<lfloor>duration * sr\<rfloor>;
          data = replicate (nat samples) 0;
          envelope = generateADSR samples sr
            \<lparr>attack = 0.005, decay = 0.1, sustain = 0.3, release = 0.5\<rparr>
      in piano_loop sr frequency amplitude envelope samples 0 data)"

text \<open>
  \<^verbatim>\<open>createViolinSound\<close> draws one random phase per harmonic before its loop, in the order
  of the table, and one random number in every turn of the loop with \<open>t < 0.1\<close>.
\<close>

fun draw_phase_offsets :: "harmonic list \<Rightarrow> rng \<Rightarrow> real list \<times> rng" where
  "draw_phase_offsets [] g = ([], g)"
| "draw_phase_offsets (h # hs) g =
     (case Math_random g of (r, g1) \<Rightarrow>
        case draw_phase_offsets hs g1 of (offsets, g2) \<Rightarrow> (r * 2 * pi # offsets, g2))"

function violin_sum :: "real \<Rightarrow> real \<Rightarrow> real \<Rightarrow> real list \<Rightarrow> nat \<Rightarrow> real \<Rightarrow> real" where
  "violin_sum frequency vibrato t phaseOffsets j sample =
     (if j < length violin_harmonics then
        (let h = violin_harmonics ! j;
             freq = frequency * fst h * vibrato
         in violin_sum frequency vibrato t phaseOffsets (Suc j)
              (sample + snd h * sin (2 * pi * freq * t + phaseOffsets ! j)))
      else sample)"
  by pat_completeness auto
termination
  by (relation "measure (\<lambda>(frequency, vibrato, t, phaseOffsets, j, sample).
        length violin_harmonics - j)") auto

declare violin_sum.simps [simp del]

function violin_loop ::
  "real \<Rightarrow> real \<Rightarrow> real \<Rightarrow> real list \<Rightarrow> real list \<Rightarrow> int \<Rightarrow> nat \<Rightarrow> real list \<times> rng \<Rightarrow>
   real list \<times> rng" where
  "violin_loop sr frequency amplitude envelope phaseOffsets samples i (data, g) =
     (if int i < samples then
        (let t = real i / sr;
             vibratoRate = 4.5;
             vibratoDepth = 0.002;
             vibratoEnvelope = min 1 (t * 10);
             vibrato = 1 + vibratoDepth * vibratoEnvelope * sin (2 * pi * vibratoRate * t);
             sample = violin_sum frequency vibrato t phaseOffsets 0 0;
             (sample, g) =
               (if t < 0.1
                then (case Math_random g of (r, g1) \<Rightarrow>
                        (sample + (r - 0.5) * 0.02 * (1 - t * 10), g1))
                else (sample, g))
         in violin_loop sr frequency amplitude envelope phaseOffsets samples (Suc i)
              (data[i := sample * envelope ! i * amplitude * 0.4], g))
      else (data, g))"
  by pat_completeness auto
termination
  by (relation "measure (\<lambda>(sr, frequency, amplitude, envelope, phaseOffsets, samples, i, s).
        nat (samples - int i))") auto

declare violin_loop.simps [simp del]

definition createViolinSound ::
  "audio_context \<Rightarrow> real \<Rightarrow> real \<Rightarrow> real \<Rightarrow> rng \<Rightarrow> real list \<times> rng" where
  "createViolinSound ctx frequency duration amplitude g =
     (let sr = sampleRate ctx;
          samples = \<lfloor>duration * sr\<rfloor>;
          data = replicate (nat samples) 0;
          envelope = generateADSR samples sr
            \<lparr>attack = 0.08, decay = 0.1, sustain = 0.7, release = 0.3\<rparr>
      in case draw_phase_offsets violin_harmonics g of (phaseOffsets, g1) \<Rightarrow>
           violin_loop sr frequency amplitude envelope phaseOffsets samples 0 (data, g1))"

section \<open>The signal renderer\<close>

text \<open>
  \<^verbatim>\<open>renderOfflineFromWaves\<close> builds an audio graph in an \<^verbatim>\<open>OfflineAudioContext\<close> and has the
  platform render it. The graph is what the engine hands over: the context, the optional
  biquad filter in front of the destination, and one source per waveform, in the order of
  the list, each started at 0 and stopped at \<open>duration\<close>. A standard waveform is an
  oscillator with its frequency, the gain of its \<^verbatim>\<open>GainNode\<close> and its periodic wave; a
  piano or violin voice is a looping buffer source (the piano with \<^verbatim>\<open>loopEnd = 1.0\<close>)
  behind a gain of 1.
\<close>

record waveform =
  wave_type :: string
  wave_amp :: real
  wave_freq :: real
  wave_phaseDeg :: real

record filter_spec =
  filter_type :: string
  filter_cutoff :: real

record biquad_filter =
  bq_type :: string
  bq_frequency :: real
  bq_Q :: real

datatype source_node =
    Oscillator real real periodic_wave
  | BufferSource "real list" bool "real option" real

record render_graph =
  rg_context :: audio_context
  rg_filter :: "biquad_filter option"
  rg_sources :: "source_node list"
  rg_stop :: real

text \<open>
  The loop over the waveforms. It threads the generator of \<^verbatim>\<open>Math.random\<close>, which only
  \<^verbatim>\<open>createViolinSound\<close> reads.
\<close>

fun render_waves ::
  "audio_context \<Rightarrow> real \<Rightarrow> bool \<Rightarrow> waveform list \<Rightarrow> source_node list \<times> rng \<Rightarrow>
   source_node list \<times> rng" where
  "render_waves ctx duration antiAliasMaxHarmonics [] (sources, g) = (sources, g)"
| "render_waves ctx duration antiAliasMaxHarmonics (w # ws) (sources, g) =
     (if wave_amp w \<le> 0 then render_waves ctx duration antiAliasMaxHarmonics ws (sources, g)
      else if wave_type w = ''piano'' \<or> wave_type w = ''violin'' then
        (if wave_type w = ''piano'' then
           (let buffer = createPianoSound ctx (wave_freq w) duration (wave_amp w)
            in render_waves ctx duration antiAliasMaxHarmonics ws
                 (sources @ [BufferSource buffer True (Some 1.0) 1.0], g))
         else
           (case createViolinSound ctx (wave_freq w) duration (wave_amp w) g of (buffer, g') \<Rightarrow>
              render_waves ctx duration antiAliasMaxHarmonics ws
                (sources @ [BufferSource buffer True None 1.0], g')))
      else
        (let pw = buildPeriodicWave ctx (wave_type w) (wave_freq w) (wave_phaseDeg w) antiAliasMaxHarmonics
         in render_waves ctx duration antiAliasMaxHarmonics ws
              (sources @ [Oscillator (clamp (wave_freq w) 1 (sampleRate ctx / 2 - 1)) (wave_amp w) pw], g)))"

text \<open>
  The platform is a parameter: \<open>startRendering\<close> maps the graph to the rendered channel, or
  throws where the platform rejects what it was given. \<^verbatim>\<open>filter.cutoff || 18000\<close> replaces a
  cutoff of zero.
\<close>

definition renderOfflineFromWaves ::
  "(render_graph \<Rightarrow> real list completion) \<Rightarrow> real \<Rightarrow> real \<Rightarrow> waveform list \<Rightarrow> bool \<Rightarrow>
   filter_spec option \<Rightarrow> rng \<Rightarrow> (real list \<times> rng) completion" where
  "renderOfflineFromWaves startRendering duration sr waves antiAliasMaxHarmonics filter_opt g =
     (let ctx = \<lparr>ctx_length = \<lceil>duration * sr\<rceil>, sampleRate = sr\<rparr>;
          dest =
            (case filter_opt of
               None \<Rightarrow> None
             | Some f \<Rightarrow>
                 if filter_type f = ''lowpass'' \<or> filter_type f = ''highpass''
                 then Some \<lparr>bq_type = filter_type f,
                            bq_frequency =
                              clamp (if filter_cutoff f = 0 then 18000 else filter_cutoff f) 10 (sr / 2 - 10),
                            bq_Q = 0.707\<rparr>
                 else None)
      in case render_waves ctx duration antiAliasMaxHarmonics waves ([], g) of
           (sources, g') \<Rightarrow>
             (case startRendering \<lparr>rg_context = ctx, rg_filter = dest, rg_sources = sources,
                                    rg_stop = duration\<rparr> of
                Normal buf \<Rightarrow> Normal (buf, g')
              | Throw e \<Rightarrow> Throw e))"

text \<open>The buffer of a call, without the generator it leaves.\<close>

definition rendered_buffer :: "(real list \<times> rng) completion \<Rightarrow> real list completion" where
  "rendered_buffer c = (case c of Normal (buf, g) \<Rightarrow> Normal buf | Throw e \<Rightarrow> Throw e)"

section \<open>Quantization and companding\<close>

record quantize_options =
  bits :: int
  dither :: bool
  compression :: string

record quantize_result =
  qFloat :: "jsnum list"
  errFloat :: "jsnum list"
  pcm :: "int list"
  encLabel :: string
  ulaw :: "int list option"

text \<open>\<^verbatim>\<open>signMuLawInverse(y, mu)\<close>; the engine calls it with \<open>mu = 255\<close> only.\<close>

definition signMuLawInverse :: "real \<Rightarrow> real \<Rightarrow> real" where
  "signMuLawInverse y mu =
     (let sign = (if y < 0 then - 1 else 1);
          ay = \<bar>y\<bar>;
          x = sign * (((1 + mu) powr ay - 1) / mu)
      in clamp x (- 1) 1)"

text \<open>
  One turn of the \<open>\<mu>\<close>-law loop on the input sample \<open>xi\<close>: the byte stored into
  \<^verbatim>\<open>ulaw[i]\<close>, the number stored into \<^verbatim>\<open>qFloat[i]\<close> and the one stored into \<^verbatim>\<open>errFloat[i]\<close>.
\<close>

definition ulaw_step :: "real \<Rightarrow> int \<times> real \<times> real" where
  "ulaw_step xi =
     (let x = clamp xi (- 1) 1;
          sign = (if x < 0 then - 1 else 1);
          mu = 255;
          y = sign * (ln (1 + mu * \<bar>x\<bar>) / ln (1 + mu));
          val = Math_round ((y + 1) * 127.5);
          b = ToUint8 \<lfloor>clamp (of_int val) 0 255\<rfloor>;
          yDec = (of_int b / 127.5) - 1;
          xRec = signMuLawInverse yDec mu
      in (b, xRec, x - xRec))"

function ulaw_loop ::
  "real list \<Rightarrow> nat \<Rightarrow> nat \<Rightarrow> jsnum list \<times> jsnum list \<times> int list \<Rightarrow>
   jsnum list \<times> jsnum list \<times> int list" where
  "ulaw_loop xFloat N i (qF, eF, ul) =
     (if i < N
      then (case ulaw_step (xFloat ! i) of (b, xRec, err) \<Rightarrow>
              ulaw_loop xFloat N (Suc i) (qF[i := Num xRec], eF[i := Num err], ul[i := b]))
      else (qF, eF, ul))"
  by pat_completeness auto
termination
  by (relation "measure (\<lambda>(xFloat, N, i, s). N - i)") auto

declare ulaw_loop.simps [simp del]

text \<open>
  \<^verbatim>\<open>peak = Math.pow(2, bits - 1) - 1\<close> at an integer \<open>bits\<close>, which is what \<^verbatim>\<open>parseInt\<close>
  hands over. The power of two is infinite from the exponent 1024 on; below, the
  difference is rounded (to \<open>2 ^ (bits - 1)\<close> from the exponent 54 on, to \<open>-1\<close> for an
  exponent below \<open>-53\<close>).
\<close>

definition quantize_peak :: "int \<Rightarrow> jsnum" where
  "quantize_peak b =
     (if 1024 \<le> b - 1 then PosInfinity else Num (binary64 (2 powi (b - 1) - 1)))"

text \<open>
  One turn of the linear PCM loop: the integer stored into \<^verbatim>\<open>arr[i]\<close> (an array of width
  \<open>w\<close>), the numbers stored into \<^verbatim>\<open>qFloat[i]\<close> and \<^verbatim>\<open>errFloat[i]\<close>, and the generator after
  the turn. With dither the turn draws two random numbers, the left operand first. The
  code \<open>q\<close> is the rounding of the binary64 product \<open>v * peak\<close>; the two numbers stored into
  the float buffers are written as the reals they approximate.

  When \<open>peak\<close> is zero (\<open>bits = 1\<close>), \<^verbatim>\<open>step = 1 / peak\<close> is infinite and \<^verbatim>\<open>q / peak\<close> is
  \<^verbatim>\<open>0 / 0\<close>; when \<open>peak\<close> is infinite, \<^verbatim>\<open>v * peak\<close> is infinite or \<^verbatim>\<open>NaN\<close> and so is \<open>q\<close>, and
  \<^verbatim>\<open>q / peak\<close> is \<^verbatim>\<open>NaN\<close>. In both cases \<^verbatim>\<open>qFloat[i]\<close> and \<^verbatim>\<open>errFloat[i]\<close> are \<^verbatim>\<open>NaN\<close>, and the
  integer array, which stores \<^verbatim>\<open>NaN\<close>, the infinities and both zeros as 0, holds 0.
\<close>

definition nan_turn :: "bool \<Rightarrow> rng \<Rightarrow> (int \<times> jsnum \<times> jsnum) \<times> rng" where
  "nan_turn dth g =
     (if dth
      then (case Math_random g of (r1, g1) \<Rightarrow> case Math_random g1 of (r2, g2) \<Rightarrow>
              ((0, NaN, NaN), g2))
      else ((0, NaN, NaN), g))"

definition pcm_step :: "jsnum \<Rightarrow> bool \<Rightarrow> nat \<Rightarrow> real \<Rightarrow> rng \<Rightarrow> (int \<times> jsnum \<times> jsnum) \<times> rng" where
  "pcm_step peak dth w xi g =
     (let v = clamp xi (- 1) 1 in
      case peak of
        Num p \<Rightarrow>
          if p = 0 then nan_turn dth g
          else
            (let step = binary64 (1 / p);
                 (v, g) =
                   (if dth
                    then (case Math_random g of (r1, g1) \<Rightarrow> case Math_random g1 of (r2, g2) \<Rightarrow>
                            (clamp (binary64 (v + binary64 (binary64 (binary64 (r1 + r2) - 1) * step)))
                               (- 1) 1, g2))
                    else (v, g));
                 q = Math_round (binary64 (v * p));
                 qv = of_int q / p
             in ((ToInt w q, Num qv, Num (v - qv)), g))
      | _ \<Rightarrow> nan_turn dth g)"

function pcm_loop ::
  "real list \<Rightarrow> jsnum \<Rightarrow> bool \<Rightarrow> nat \<Rightarrow> nat \<Rightarrow> nat \<Rightarrow>
   (jsnum list \<times> jsnum list \<times> int list) \<times> rng \<Rightarrow>
   (jsnum list \<times> jsnum list \<times> int list) \<times> rng" where
  "pcm_loop xFloat peak dth w N i ((qF, eF, arr), g) =
     (if i < N
      then (case pcm_step peak dth w (xFloat ! i) g of ((a, qv, err), g') \<Rightarrow>
              pcm_loop xFloat peak dth w N (Suc i) ((qF[i := qv], eF[i := err], arr[i := a]), g'))
      else ((qF, eF, arr), g))"
  by pat_completeness auto
termination
  by (relation "measure (\<lambda>(xFloat, peak, dth, w, N, i, s). N - i)") auto

declare pcm_loop.simps [simp del]

text \<open>
  \<^verbatim>\<open>quantizeBuffer(xFloat, { bits, dither, compression })\<close>. The function has no
  \<^verbatim>\<open>throw\<close> and allocates arrays of the length of its input, so every call completes
  normally.
\<close>

definition quantizeBuffer ::
  "real list \<Rightarrow> quantize_options \<Rightarrow> rng \<Rightarrow> (quantize_result \<times> rng) completion" where
  "quantizeBuffer xFloat opts g =
     (let N = length xFloat;
          qFloat0 = replicate N (Num 0);
          errFloat0 = replicate N (Num 0)
      in if startsWith (compression opts) mu_letter then
           (case ulaw_loop xFloat N 0 (qFloat0, errFloat0, replicate N 0) of (qF, eF, ul) \<Rightarrow>
              Normal (\<lparr>qFloat = qF, errFloat = eF, pcm = ul,
                       encLabel = mu_letter @ ''-law8'', ulaw = Some ul\<rparr>, g))
         else
           (let peak = quantize_peak (bits opts);
                w = (if bits opts = 8 then 8 else if bits opts = 16 then 16 else 32)
            in case pcm_loop xFloat peak (dither opts) w N 0
                      ((qFloat0, errFloat0, replicate N 0), g) of
                 ((qF, eF, arr), g') \<Rightarrow>
                   Normal (\<lparr>qFloat = qF, errFloat = eF, pcm = arr,
                            encLabel = show_int (bits opts) @ ''-bit PCM'', ulaw = None\<rparr>, g')))"

text \<open>
  The \<open>\<mu>\<close>-law companding in the words of the specification: \<open>y = sign x * ln (1 + 255 |x|) /
  ln 256\<close> on the clamped sample, the byte \<open>round ((y + 1) * 127.5)\<close> clamped to \<open>[0, 255]\<close>,
  and the inverse of the companding formula on \<open>byte / 127.5 - 1\<close>.
\<close>

definition spec_mulaw_compand :: "real \<Rightarrow> real" where
  "spec_mulaw_compand x = sgn x * ln (1 + 255 * \<bar>x\<bar>) / ln 256"

definition spec_mulaw_encode :: "real \<Rightarrow> int" where
  "spec_mulaw_encode x =
     max 0 (min 255 (round ((spec_mulaw_compand (max (- 1) (min 1 x)) + 1) * 127.5)))"

definition spec_mulaw_expand :: "real \<Rightarrow> real" where
  "spec_mulaw_expand y = sgn y * (256 powr \<bar>y\<bar> - 1) / 255"

definition spec_mulaw_decode :: "int \<Rightarrow> real" where
  "spec_mulaw_decode b = spec_mulaw_expand (of_int b / 127.5 - 1)"

section \<open>Signal-to-noise ratio\<close>







section \<open>DAC reconstruction\<close>

text \<open>
  The rates are finite numbers. The position on the source's time axis of the output index
  \<open>i\<close> is \<^verbatim>\<open>n = t * fsIn\<close> with \<^verbatim>\<open>t = i / fsOut\<close>, both rounded; it is infinite when a
  quotient or a product overflows, and \<^verbatim>\<open>NaN\<close> only for a rate 0.
\<close>

definition dac_position :: "real \<Rightarrow> real \<Rightarrow> nat \<Rightarrow> jsnum" where
  "dac_position fsIn fsOut i = js_mul (js_div (Num (real i)) (Num fsOut)) (Num fsIn)"

definition dac_out_of_bounds :: "real list \<Rightarrow> int \<Rightarrow> bool" where
  "dac_out_of_bounds q n0 \<longleftrightarrow> n0 < 0 \<or> n0 \<ge> int (length q)"

text \<open>
  The body of the loop of \<^verbatim>\<open>reconstructDAC\<close> for the output index \<open>i\<close>: the value stored
  into \<^verbatim>\<open>y[i]\<close>. The first test is the out-of-bounds branch (\<^verbatim>\<open>y[i] = 0; continue\<close>), which
  an infinite position takes as well. The loop does not run with a position \<^verbatim>\<open>NaN\<close>
  (lemma \<open>reconstructDAC_position\<close> below), for which the source would store \<^verbatim>\<open>NaN\<close>.
\<close>

definition dac_sample :: "real list \<Rightarrow> real \<Rightarrow> real \<Rightarrow> bool \<Rightarrow> nat \<Rightarrow> real" where
  "dac_sample q fsIn fsOut lin i =
     (case dac_position fsIn fsOut i of
        Num n \<Rightarrow>
          (let n0 = \<lfloor>n\<rfloor>;
               frac = binary64 (n - of_int n0)
           in if dac_out_of_bounds q n0 then 0
              else if \<not> lin \<or> n0 = int (length q) - 1 then q ! nat n0
              else (let n1 = n0 + 1 in q ! nat n0 * (1 - frac) + q ! nat n1 * frac))
      | _ \<Rightarrow> 0)"

function dac_loop :: "real list \<Rightarrow> real \<Rightarrow> real \<Rightarrow> bool \<Rightarrow> nat \<Rightarrow> nat \<Rightarrow> real list \<Rightarrow> real list" where
  "dac_loop q fsIn fsOut lin Nout i y =
     (if i < Nout
      then dac_loop q fsIn fsOut lin Nout (Suc i) (y[i := dac_sample q fsIn fsOut lin i])
      else y)"
  by pat_completeness auto
termination
  by (relation "measure (\<lambda>(q, fsIn, fsOut, lin, Nout, i, y). Nout - i)") auto

declare dac_loop.simps [simp del]

text \<open>
  \<^verbatim>\<open>duration = q.length / fsIn\<close> and \<^verbatim>\<open>Nout = Math.floor(duration * fsOut)\<close>, both rounded.
  \<^verbatim>\<open>new Float32Array(Nout)\<close> is the empty array for \<^verbatim>\<open>NaN\<close> and throws a \<^verbatim>\<open>RangeError\<close> for a
  length that is infinite, negative or above \<open>2\<^sup>5\<^sup>3 - 1\<close>.
\<close>

definition reconstructDAC :: "real list \<Rightarrow> real \<Rightarrow> real \<Rightarrow> string \<Rightarrow> real list completion" where
  "reconstructDAC q fsIn fsOut methodLabel =
     (let duration = js_div (Num (real (length q))) (Num fsIn);
          lin = startsWith methodLabel ''Linear''
      in case js_mul duration (Num fsOut) of
           Num p \<Rightarrow>
             (let Nout = \<lfloor>p\<rfloor>
              in if Nout < 0 \<or> 2 ^ 53 \<le> Nout then Throw ''RangeError''
                 else Normal (dac_loop q fsIn fsOut lin (nat Nout) 0 (replicate (nat Nout) 0)))
         | NaN \<Rightarrow> Normal []
         | _ \<Rightarrow> Throw ''RangeError'')"

text \<open>
  The reconstruction rule in the words of the specification, for a position \<open>n\<close> on the
  source's time axis: linear interpolation between \<open>source[floor n]\<close> and
  \<open>source[floor n + 1]\<close> by the fractional part of \<open>n\<close>, holding the final sample.
\<close>

definition spec_linear_interp :: "real list \<Rightarrow> real \<Rightarrow> real" where
  "spec_linear_interp source n =
     (if nat \<lfloor>n\<rfloor> + 1 = length source then source ! nat \<lfloor>n\<rfloor>
      else source ! nat \<lfloor>n\<rfloor> + (source ! (nat \<lfloor>n\<rfloor> + 1) - source ! nat \<lfloor>n\<rfloor>) * frac n)"

section \<open>Properties of the rounding\<close>

lemma round_even_of_int [simp]: "round_even (of_int m) = m"
  by (simp add: round_even_def)

lemma round_even_error: "\<bar>of_int (round_even r) - r\<bar> \<le> 1 / 2"
  unfolding round_even_def by (auto simp: abs_le_iff)

lemma round_even_nonneg: "0 \<le> r \<Longrightarrow> 0 \<le> round_even r"
  unfolding round_even_def by (auto simp: ) 

lemma round_even_mono: "r \<le> s \<Longrightarrow> round_even r \<le> round_even s"
proof -
  assume rs: "r \<le> s"
  have fl: "\<lfloor>r\<rfloor> \<le> \<lfloor>s\<rfloor>" using rs by (rule floor_mono)
  show ?thesis
  proof (cases "\<lfloor>r\<rfloor> = \<lfloor>s\<rfloor>")
    case True
    then show ?thesis using rs unfolding round_even_def by auto
  next
    case False
    then have "\<lfloor>r\<rfloor> + 1 \<le> \<lfloor>s\<rfloor>" using fl by simp
    moreover have "round_even r \<le> \<lfloor>r\<rfloor> + 1" unfolding round_even_def by auto
    moreover have "\<lfloor>s\<rfloor> \<le> round_even s" unfolding round_even_def by auto
    ultimately show ?thesis by linarith
  qed
qed

lemma powi_powr: "(2::real) powi k = 2 powr of_int k"
  by (simp add: powr_real_of_int')

lemma binary64_exponent_eq:
  assumes "2 powi e \<le> \<bar>x\<bar>" "\<bar>x\<bar> < 2 powi (e + 1)" "- 1022 \<le> e"
  shows "binary64_exponent x = e"
proof -
  have "0 < (2::real) powi e" by simp
  then have "0 < \<bar>x\<bar>" using assms(1) by linarith
  then have "\<lfloor>log 2 \<bar>x\<bar>\<rfloor> = e"
    using assms(1,2) by (simp add: floor_log_eq_powr_iff powi_powr)
  then show ?thesis using assms(3) by (simp add: binary64_exponent_def)
qed

lemma binary64_exponent_subnormal:
  assumes "\<bar>x\<bar> < 2 powi (- 1022)" "x \<noteq> 0"
  shows "binary64_exponent x = - 1022"
proof -
  have "log 2 \<bar>x\<bar> < of_int (- 1022)"
    using assms by (simp add: log_less_iff powi_powr del: power_int_numeral_neg_numeral)
  then have "\<lfloor>log 2 \<bar>x\<bar>\<rfloor> < - 1022" by linarith
  then show ?thesis by (simp add: binary64_exponent_def)
qed

lemma binary64_at:
  assumes "2 powi e \<le> \<bar>x\<bar>" "\<bar>x\<bar> < 2 powi (e + 1)" "- 1022 \<le> e"
  shows "binary64 x = of_int (round_even (x / 2 powi (e - 52))) * 2 powi (e - 52)"
proof -
  have "0 < (2::real) powi e" by simp
  then have "0 < \<bar>x\<bar>" using assms(1) by linarith
  then have "x \<noteq> 0" by simp
  then show ?thesis
    by (simp add: binary64_def binary64_exponent_eq [OF assms])
qed

lemma binary64_zero [simp]: "binary64 0 = 0"
  by (simp add: binary64_def)

lemma binary64_error_quantum:
  "\<bar>binary64 x - x\<bar> \<le> 2 powi (binary64_exponent x - 53)"
proof (cases "x = 0")
  case True
  then show ?thesis by simp
next
  case False
  define q :: real where "q = 2 powi (binary64_exponent x - 52)"
  define a :: real where "a = of_int (round_even (x / q))"
  have q: "0 < q" by (simp add: q_def)
  have b: "binary64 x = a * q"
    using False by (simp add: binary64_def q_def a_def)
  have "\<bar>a - x / q\<bar> \<le> 1 / 2"
    unfolding a_def by (rule round_even_error)
  then have "\<bar>a - x / q\<bar> * q \<le> 1 / 2 * q"
    using q by (intro mult_right_mono) simp_all
  moreover have "a * q - x = (a - x / q) * q"
    using q by (simp add: left_diff_distrib)
  then have "\<bar>a * q - x\<bar> = \<bar>a - x / q\<bar> * q"
    using q by (simp only: abs_mult abs_of_pos)
  moreover have "1 / 2 * q = 2 powi (binary64_exponent x - 53)"
  proof -
    have "(2::real) powi (binary64_exponent x - 52) = 2 powi (binary64_exponent x - 53 + 1)"
      by simp
    also have "\<dots> = 2 powi (binary64_exponent x - 53) * 2"
      by (subst power_int_add) simp_all
    finally show ?thesis by (simp add: q_def)
  qed
  ultimately show ?thesis
    unfolding b by linarith
qed

lemma floor_log2_le:
  assumes "x \<noteq> 0"
  shows "2 powi \<lfloor>log 2 \<bar>x\<bar>\<rfloor> \<le> \<bar>x\<bar>"
proof -
  have "2 powr of_int \<lfloor>log 2 \<bar>x\<bar>\<rfloor> \<le> 2 powr log 2 \<bar>x\<bar>"
    by (intro powr_mono) simp_all
  also have "\<dots> = \<bar>x\<bar>" using assms by simp
  finally show ?thesis by (simp add: powi_powr)
qed

lemma binary64_error:
  "\<bar>binary64 x - x\<bar> \<le> \<bar>x\<bar> / 2 ^ 53 + 1 / 2 ^ 1075"
proof (cases "x = 0")
  case True
  then show ?thesis by simp
next
  case False
  have e: "\<bar>binary64 x - x\<bar> \<le> 2 powi (binary64_exponent x - 53)"
    by (rule binary64_error_quantum)
  show ?thesis
  proof (cases "\<lfloor>log 2 \<bar>x\<bar>\<rfloor> \<le> - 1022")
    case True
    then have "binary64_exponent x = - 1022" by (simp add: binary64_exponent_def)
    then have "\<bar>binary64 x - x\<bar> \<le> 1 / 2 ^ 1075" using e by simp
    moreover have "0 \<le> \<bar>x\<bar> / 2 ^ 53" by simp
    ultimately show ?thesis by linarith
  next
    case False
    then have ex: "binary64_exponent x = \<lfloor>log 2 \<bar>x\<bar>\<rfloor>" by (simp add: binary64_exponent_def)
    have "(2::real) powi (binary64_exponent x - 53) = 2 powi \<lfloor>log 2 \<bar>x\<bar>\<rfloor> / 2 ^ 53"
      unfolding ex by (simp add: power_int_diff)
    also have "\<dots> \<le> \<bar>x\<bar> / 2 ^ 53"
      using floor_log2_le [OF \<open>x \<noteq> 0\<close>] by (simp add: divide_right_mono)
    finally have "\<bar>binary64 x - x\<bar> \<le> \<bar>x\<bar> / 2 ^ 53" using e by linarith
    then show ?thesis by simp
  qed
qed

lemma binary64_nonneg: "0 \<le> x \<Longrightarrow> 0 \<le> binary64 x"
  by (simp add: binary64_def round_even_nonneg)

lemma round_even_minus: "round_even (- r) = - round_even r"
proof (cases "r = of_int \<lfloor>r\<rfloor>")
  case True
  then obtain m where "r = of_int m" by metis
  then show ?thesis by (simp flip: of_int_minus)
next
  case False
  then have c: "\<lceil>r\<rceil> = \<lfloor>r\<rfloor> + 1" by (simp add: ceiling_altdef)
  have f: "\<lfloor>- r\<rfloor> = - \<lfloor>r\<rfloor> - 1" using c by (simp add: floor_minus)
  show ?thesis
    unfolding round_even_def f by (auto simp: ) 
qed

lemma binary64_minus: "binary64 (- x) = - binary64 x"
  by (simp add: binary64_def binary64_exponent_def round_even_minus)

lemma binary64_nonpos: "x \<le> 0 \<Longrightarrow> binary64 x \<le> 0"
  using binary64_nonneg [of "- x"] by (simp add: binary64_minus)

lemma binary64_exact:
  assumes "\<bar>m\<bar> < 2 ^ 53" "- 1074 \<le> k"
  shows "binary64 (of_int m * 2 powi k) = of_int m * 2 powi k"
proof (cases "m = 0")
  case True
  then show ?thesis by simp
next
  case False
  define x :: real where "x = of_int m * 2 powi k"
  have x0: "x \<noteq> 0" using False by (simp add: x_def)
  have ax: "\<bar>x\<bar> < 2 powi (k + 53)"
  proof -
    have "\<bar>x\<bar> = of_int \<bar>m\<bar> * 2 powi k" by (simp add: x_def abs_mult)
    also have "\<dots> < 2 ^ 53 * 2 powi k"
      using assms(1) by (intro mult_strict_right_mono) (simp_all flip: of_int_less_iff)
    also have "\<dots> = 2 powi (k + 53)" by (simp add: power_int_add)
    finally show ?thesis .
  qed
  have "log 2 \<bar>x\<bar> < of_int (k + 53)"
    using ax x0 by (simp add: log_less_iff powi_powr)
  then have "\<lfloor>log 2 \<bar>x\<bar>\<rfloor> \<le> k + 52" by linarith
  then have e: "binary64_exponent x \<le> k + 52"
    using assms(2) by (simp add: binary64_exponent_def)
  define E where "E = binary64_exponent x"
  define j where "j = nat (k + 52 - E)"
  define q :: real where "q = 2 powi (E - 52)"
  have q: "0 < q" by (simp add: q_def)
  have j: "k = E - 52 + int j" using e by (simp add: j_def E_def)
  have pk: "(2::real) powi k = q * 2 ^ j"
    unfolding q_def by (subst j, subst power_int_add) simp_all
  have xj: "x = of_int (m * 2 ^ j) * q"
    by (simp add: x_def pk)
  have "x / q = of_int (m * 2 ^ j)"
    unfolding xj using q by simp
  then have "round_even (x / q) = m * 2 ^ j"
    by (simp only: round_even_of_int)
  then have "binary64 x = of_int (m * 2 ^ j) * q"
    using x0 by (simp add: binary64_def E_def q_def)
  then have "binary64 x = x" by (simp only: xj)
  then show ?thesis by (simp only: x_def)
qed

lemma binary64_of_int: "\<bar>m\<bar> < 2 ^ 53 \<Longrightarrow> binary64 (of_int m) = of_int m"
  using binary64_exact [of m 0] by simp

lemma binary64_numeral:
  "numeral n < (2::int) ^ 53 \<Longrightarrow> binary64 (numeral n) = numeral n"
  using binary64_of_int [of "numeral n"] by simp

lemma binary64_one [simp]: "binary64 1 = 1"
  using binary64_of_int [of 1] by simp

lemma binary64_dyadic:
  assumes "\<bar>m\<bar> < 2 ^ 53" "j \<le> 1074"
  shows "binary64 (of_int m / 2 ^ j) = of_int m / 2 ^ j"
proof -
  have "(2::real) powi (- int j) = 1 / 2 ^ j"
    by (simp add: power_int_minus field_simps)
  then show ?thesis
    using binary64_exact [of m "- int j"] assms by simp
qed

lemma binary64_upper: "0 \<le> x \<Longrightarrow> binary64 x \<le> x + x / 2 ^ 53 + 1 / 2 ^ 1075"
  using binary64_error [of x] by (simp add: abs_le_iff)

lemma binary64_lower: "0 \<le> x \<Longrightarrow> x - x / 2 ^ 53 - 1 / 2 ^ 1075 \<le> binary64 x"
  using binary64_error [of x] by (simp add: abs_le_iff)

lemma binary64_lower_inv:
  assumes "0 \<le> x"
  shows "x \<le> binary64 x + binary64 x / 2 ^ 51 + 1 / 2 ^ 1074"
proof -
  have "\<And>z D :: real. z - z / 2 ^ 53 - 1 / 2 ^ 1075 \<le> D \<Longrightarrow> 0 \<le> D \<Longrightarrow>
      z \<le> D + D / 2 ^ 51 + 1 / 2 ^ 1074"
    by simp
  then show ?thesis
    using binary64_lower [OF assms] binary64_nonneg [OF assms] by blast
qed

lemma binary64_pos_imp_pos: "0 < binary64 x \<Longrightarrow> 0 < x"
  using binary64_nonpos [of x] by (cases "0 < x") auto

lemma binary64_half_le:
  assumes "1 / 2 ^ 1000 \<le> x"
  shows "x / 2 \<le> binary64 x"
proof -
  have "0 \<le> x" using assms by (rule order_trans [rotated]) simp
  from binary64_lower [OF this] assms show ?thesis by simp
qed

text \<open>The decimal literals of the engine's roll-off and harmonic ceiling.\<close>

lemma literal_09: "binary64 (9 / 10) = 8106479329266893 / 2 ^ 53"
proof -
  have "binary64 (9 / 10) = of_int (round_even ((9 / 10) / 2 powi (- 1 - 52))) * 2 powi (- 1 - 52)"
    by (rule binary64_at) simp_all
  also have "\<dots> = 8106479329266893 / 2 ^ 53"
    by (simp add: round_even_def)
  finally show ?thesis .
qed

lemma literal_08: "binary64 (4 / 5) = 3602879701896397 / 2 ^ 52"
proof -
  have "binary64 (4 / 5) = of_int (round_even ((4 / 5) / 2 powi (- 1 - 52))) * 2 powi (- 1 - 52)"
    by (rule binary64_at) simp_all
  also have "\<dots> = 3602879701896397 / 2 ^ 52"
    by (simp add: round_even_def)
  finally show ?thesis .
qed

lemma literal_02: "binary64 (1 / 5) = 3602879701896397 / 2 ^ 54"
proof -
  have "binary64 (1 / 5) = of_int (round_even ((1 / 5) / 2 powi (- 3 - 52))) * 2 powi (- 3 - 52)"
    by (rule binary64_at) simp_all
  also have "\<dots> = 3602879701896397 / 2 ^ 54"
    by (simp add: round_even_def)
  finally show ?thesis .
qed

lemma floor_binary64:
  assumes "real_of_int m + 1 / 1024 \<le> x" "x \<le> real_of_int m + 1023 / 1024" "0 \<le> m" "m < 2 ^ 40"
  shows "\<lfloor>binary64 x\<rfloor> = m"
proof -
  have x0: "0 \<le> x" using assms by linarith
  have "real_of_int m < real_of_int (2 ^ 40)" using assms(4) by (simp only: of_int_less_iff)
  then have xu: "x < 2 ^ 40 + 1" using assms(2) by simp
  have "binary64 x \<le> x + x / 2 ^ 53 + 1 / 2 ^ 1075" by (rule binary64_upper [OF x0])
  then have u: "binary64 x < real_of_int m + 1" using assms(2) xu by simp
  have "x - x / 2 ^ 53 - 1 / 2 ^ 1075 \<le> binary64 x" by (rule binary64_lower [OF x0])
  then have l: "real_of_int m \<le> binary64 x" using assms(1) xu by simp
  from l u show ?thesis by (simp add: floor_unique)
qed

text \<open>Rounding with overflow, and the arithmetic of numbers that may not be finite.\<close>

lemma fl_zero [simp]: "fl 0 = Num 0"
  by (simp add: fl_def)

lemma binary64_half: "binary64 (1 / 2) = 1 / 2"
  using binary64_dyadic [of 1 1] by simp

lemma binary64_quarter: "binary64 (1 / 4) = 1 / 4"
  using binary64_dyadic [of 1 2] by simp

lemma js_add_NaN_right [simp]: "js_add p NaN = NaN"
  by (cases p) simp_all

lemma js_div_NaN_right [simp]: "js_div p NaN = NaN"
  by (cases p) simp_all

section \<open>Properties of the periodic waves\<close>

lemma addHarm_other:
  "j \<noteq> k \<Longrightarrow> fst (addHarm phi k A arrs) ! j = fst arrs ! j \<and> snd (addHarm phi k A arrs) ! j = snd arrs ! j"
  by (cases arrs) (simp add: addHarm_def)

lemma square_loop_outside:
  "int j < n \<or> kMax < int j \<or> \<not> 0 < square_amplitude ctx f0 (int j) \<Longrightarrow> 0 \<le> n \<Longrightarrow>
   fst (square_loop ctx f0 phi kMax n arrs) ! j = fst arrs ! j \<and>
   snd (square_loop ctx f0 phi kMax n arrs) ! j = snd arrs ! j"
proof (induction ctx f0 phi kMax n arrs rule: square_loop.induct)
  case (1 ctx f0 phi kMax n arrs)
  show ?case
  proof (cases "n \<le> kMax")
    case True
    define U where "U = (if 0 < square_amplitude ctx f0 n
        then addHarm phi (nat n) (square_amplitude ctx f0 n) arrs else arrs)"
    have nx: "int j < n + 2 \<or> kMax < int j \<or> \<not> 0 < square_amplitude ctx f0 (int j)" "0 \<le> n + 2"
      using "1.prems" by auto
    have U: "fst U ! j = fst arrs ! j \<and> snd U ! j = snd arrs ! j"
    proof (cases "j = nat n")
      case True
      then have "n = int j" using "1.prems"(2) by simp
      then have "\<not> 0 < square_amplitude ctx f0 n"
        using "1.prems"(1) \<open>n \<le> kMax\<close> by auto
      then show ?thesis by (simp add: U_def)
    next
      case False
      then show ?thesis using addHarm_other [OF False] by (simp add: U_def)
    qed
    have "square_loop ctx f0 phi kMax n arrs = square_loop ctx f0 phi kMax (n + 2) U"
      using True by (subst square_loop.simps) (simp add: U_def)
    then show ?thesis
      using "1.IH" [OF True nx] U by (simp add: U_def)
  next
    case False
    then show ?thesis by (subst (1 2) square_loop.simps) simp
  qed
qed

lemma triangle_loop_outside:
  "int j < n \<or> kMax < int j \<or> \<not> binary64 0.00001 < \<bar>triangle_amplitude ctx f0 (int j)\<bar> \<Longrightarrow> 0 \<le> n \<Longrightarrow>
   fst (triangle_loop ctx f0 phi kMax n arrs) ! j = fst arrs ! j \<and>
   snd (triangle_loop ctx f0 phi kMax n arrs) ! j = snd arrs ! j"
proof (induction ctx f0 phi kMax n arrs rule: triangle_loop.induct)
  case (1 ctx f0 phi kMax n arrs)
  show ?case
  proof (cases "n \<le> kMax")
    case True
    define U where "U = (if binary64 0.00001 < \<bar>triangle_amplitude ctx f0 n\<bar>
        then addHarm phi (nat n) (triangle_amplitude ctx f0 n) arrs else arrs)"
    have nx: "int j < n + 2 \<or> kMax < int j \<or> \<not> binary64 0.00001 < \<bar>triangle_amplitude ctx f0 (int j)\<bar>" "0 \<le> n + 2"
      using "1.prems" by auto
    have U: "fst U ! j = fst arrs ! j \<and> snd U ! j = snd arrs ! j"
    proof (cases "j = nat n")
      case True
      then have "n = int j" using "1.prems"(2) by simp
      then have "\<not> binary64 0.00001 < \<bar>triangle_amplitude ctx f0 n\<bar>"
        using "1.prems"(1) \<open>n \<le> kMax\<close> by auto
      then show ?thesis by (simp add: U_def)
    next
      case False
      then show ?thesis using addHarm_other [OF False] by (simp add: U_def)
    qed
    have "triangle_loop ctx f0 phi kMax n arrs = triangle_loop ctx f0 phi kMax (n + 2) U"
      using True by (subst triangle_loop.simps) (simp add: U_def)
    then show ?thesis
      using "1.IH" [OF True nx] U by (simp add: U_def)
  next
    case False
    then show ?thesis by (subst (1 2) triangle_loop.simps) simp
  qed
qed

lemma sawtooth_loop_outside:
  "int j < n \<or> kMax < int j \<or> \<not> binary64 0.00001 < \<bar>sawtooth_amplitude ctx f0 (int j)\<bar> \<Longrightarrow> 0 \<le> n \<Longrightarrow>
   fst (sawtooth_loop ctx f0 phi kMax n arrs) ! j = fst arrs ! j \<and>
   snd (sawtooth_loop ctx f0 phi kMax n arrs) ! j = snd arrs ! j"
proof (induction ctx f0 phi kMax n arrs rule: sawtooth_loop.induct)
  case (1 ctx f0 phi kMax n arrs)
  show ?case
  proof (cases "n \<le> kMax")
    case True
    define U where "U = (if binary64 0.00001 < \<bar>sawtooth_amplitude ctx f0 n\<bar>
        then addHarm phi (nat n) (sawtooth_amplitude ctx f0 n) arrs else arrs)"
    have nx: "int j < n + 1 \<or> kMax < int j \<or> \<not> binary64 0.00001 < \<bar>sawtooth_amplitude ctx f0 (int j)\<bar>" "0 \<le> n + 1"
      using "1.prems" by auto
    have U: "fst U ! j = fst arrs ! j \<and> snd U ! j = snd arrs ! j"
    proof (cases "j = nat n")
      case True
      then have "n = int j" using "1.prems"(2) by simp
      then have "\<not> binary64 0.00001 < \<bar>sawtooth_amplitude ctx f0 n\<bar>"
        using "1.prems"(1) \<open>n \<le> kMax\<close> by auto
      then show ?thesis by (simp add: U_def)
    next
      case False
      then show ?thesis using addHarm_other [OF False] by (simp add: U_def)
    qed
    have "sawtooth_loop ctx f0 phi kMax n arrs = sawtooth_loop ctx f0 phi kMax (n + 1) U"
      using True by (subst sawtooth_loop.simps) (simp add: U_def)
    then show ?thesis
      using "1.IH" [OF True nx] U by (simp add: U_def)
  next
    case False
    then show ?thesis by (subst (1 2) sawtooth_loop.simps) simp
  qed
qed

lemma length_addHarm:
  "length (fst (addHarm phi k A arrs)) = length (fst arrs) \<and>
   length (snd (addHarm phi k A arrs)) = length (snd arrs)"
  by (cases arrs) (simp add: addHarm_def)

lemma length_square_loop:
  "length (fst (square_loop ctx f0 phi kMax n arrs)) = length (fst arrs) \<and>
   length (snd (square_loop ctx f0 phi kMax n arrs)) = length (snd arrs)"
proof (induction ctx f0 phi kMax n arrs rule: square_loop.induct)
  case (1 ctx f0 phi kMax n arrs)
  show ?case
  proof (cases "n \<le> kMax")
    case True
    show ?thesis
      using True "1.IH" [OF True] length_addHarm [of phi "nat n" _ arrs]
      by (subst (1 2) square_loop.simps) simp
  next
    case False
    then show ?thesis by (subst (1 2) square_loop.simps) simp
  qed
qed

lemma length_triangle_loop:
  "length (fst (triangle_loop ctx f0 phi kMax n arrs)) = length (fst arrs) \<and>
   length (snd (triangle_loop ctx f0 phi kMax n arrs)) = length (snd arrs)"
proof (induction ctx f0 phi kMax n arrs rule: triangle_loop.induct)
  case (1 ctx f0 phi kMax n arrs)
  show ?case
  proof (cases "n \<le> kMax")
    case True
    show ?thesis
      using True "1.IH" [OF True] length_addHarm [of phi "nat n" _ arrs]
      by (subst (1 2) triangle_loop.simps) simp
  next
    case False
    then show ?thesis by (subst (1 2) triangle_loop.simps) simp
  qed
qed

lemma length_sawtooth_loop:
  "length (fst (sawtooth_loop ctx f0 phi kMax n arrs)) = length (fst arrs) \<and>
   length (snd (sawtooth_loop ctx f0 phi kMax n arrs)) = length (snd arrs)"
proof (induction ctx f0 phi kMax n arrs rule: sawtooth_loop.induct)
  case (1 ctx f0 phi kMax n arrs)
  show ?case
  proof (cases "n \<le> kMax")
    case True
    show ?thesis
      using True "1.IH" [OF True] length_addHarm [of phi "nat n" _ arrs]
      by (subst (1 2) sawtooth_loop.simps) simp
  next
    case False
    then show ?thesis by (subst (1 2) sawtooth_loop.simps) simp
  qed
qed

lemma length_buildPeriodicWave:
  "length (pw_real (buildPeriodicWave ctx shape f0 phaseDeg limitHarmonics)) =
     nat (max (harmonic_limit ctx f0 limitHarmonics + 1) 8192) \<and>
   length (pw_imag (buildPeriodicWave ctx shape f0 phaseDeg limitHarmonics)) =
     nat (max (harmonic_limit ctx f0 limitHarmonics + 1) 8192)"
  by (simp add: buildPeriodicWave_def Let_def length_addHarm length_square_loop
      length_triangle_loop length_sawtooth_loop)


lemma harmonic_limit_ge_1: "1 \<le> harmonic_limit ctx f0 limitHarmonics"
  by (simp add: harmonic_limit_def Let_def)

text \<open>
  A coefficient that is not zero was written by \<open>addHarm\<close>: its index is a harmonic between
  1 and \<open>kMax\<close> that passed the amplitude test of its loop, or the harmonic 1 of a sine.
\<close>

lemma buildPeriodicWave_support:
  assumes "k < nat (max (harmonic_limit ctx f0 limitHarmonics + 1) 8192)"
    and "pw_real (buildPeriodicWave ctx shape f0 phaseDeg limitHarmonics) ! k \<noteq> 0 \<or>
         pw_imag (buildPeriodicWave ctx shape f0 phaseDeg limitHarmonics) ! k \<noteq> 0"
  shows "1 \<le> k \<and> int k \<le> harmonic_limit ctx f0 limitHarmonics \<and>
         (shape = ''square'' \<longrightarrow> 0 < square_amplitude ctx f0 (int k)) \<and>
         (shape = ''triangle'' \<longrightarrow> binary64 0.00001 < \<bar>triangle_amplitude ctx f0 (int k)\<bar>) \<and>
         (shape = ''sawtooth'' \<longrightarrow> binary64 0.00001 < \<bar>sawtooth_amplitude ctx f0 (int k)\<bar>) \<and>
         (shape \<notin> {''square'', ''triangle'', ''sawtooth''} \<longrightarrow> k = 1)"
proof -
  define kMax where "kMax = harmonic_limit ctx f0 limitHarmonics"
  define z where "z = replicate (nat (max (kMax + 1) 8192)) (0::real)"
  define phi where "phi = phaseDeg * pi / 180"
  define W where "W = buildPeriodicWave ctx shape f0 phaseDeg limitHarmonics"
  have k1: "1 \<le> kMax" unfolding kMax_def by (rule harmonic_limit_ge_1)
  have zk: "z ! k = 0"
    using assms(1) by (simp add: z_def kMax_def)
  have nz: "pw_real W ! k \<noteq> 0 \<or> pw_imag W ! k \<noteq> 0"
    using assms(2) by (simp add: W_def)
  have sine: "k = 1"
    if "pw_real W = fst (addHarm phi 1 1 (z, z))" "pw_imag W = snd (addHarm phi 1 1 (z, z))"
  proof (rule ccontr)
    assume "k \<noteq> 1"
    from addHarm_other [OF this, of phi 1 "(z, z)"] zk nz that show False by simp
  qed
  have square:
    "\<not> (int k < 1 \<or> kMax < int k \<or> \<not> 0 < square_amplitude ctx f0 (int k))"
    if "pw_real W = fst (square_loop ctx f0 phi kMax 1 (z, z))"
       "pw_imag W = snd (square_loop ctx f0 phi kMax 1 (z, z))"
  proof
    assume "int k < 1 \<or> kMax < int k \<or> \<not> 0 < square_amplitude ctx f0 (int k)"
    from square_loop_outside [OF this, of phi "(z, z)"] zk nz that show False by simp
  qed
  have triangle:
    "\<not> (int k < 1 \<or> kMax < int k \<or> \<not> binary64 0.00001 < \<bar>triangle_amplitude ctx f0 (int k)\<bar>)"
    if "pw_real W = fst (triangle_loop ctx f0 phi kMax 1 (z, z))"
       "pw_imag W = snd (triangle_loop ctx f0 phi kMax 1 (z, z))"
  proof
    assume "int k < 1 \<or> kMax < int k \<or> \<not> binary64 0.00001 < \<bar>triangle_amplitude ctx f0 (int k)\<bar>"
    from triangle_loop_outside [OF this, of phi "(z, z)"] zk nz that show False by simp
  qed
  have sawtooth:
    "\<not> (int k < 1 \<or> kMax < int k \<or> \<not> binary64 0.00001 < \<bar>sawtooth_amplitude ctx f0 (int k)\<bar>)"
    if "pw_real W = fst (sawtooth_loop ctx f0 phi kMax 1 (z, z))"
       "pw_imag W = snd (sawtooth_loop ctx f0 phi kMax 1 (z, z))"
  proof
    assume "int k < 1 \<or> kMax < int k \<or> \<not> binary64 0.00001 < \<bar>sawtooth_amplitude ctx f0 (int k)\<bar>"
    from sawtooth_loop_outside [OF this, of phi "(z, z)"] zk nz that show False by simp
  qed
  have W: "pw_real W = fst
        (if shape = ''sine'' then addHarm phi 1 1 (z, z)
         else if shape = ''square'' then square_loop ctx f0 phi kMax 1 (z, z)
         else if shape = ''triangle'' then triangle_loop ctx f0 phi kMax 1 (z, z)
         else if shape = ''sawtooth'' then sawtooth_loop ctx f0 phi kMax 1 (z, z)
         else addHarm phi 1 1 (z, z))"
      "pw_imag W = snd
        (if shape = ''sine'' then addHarm phi 1 1 (z, z)
         else if shape = ''square'' then square_loop ctx f0 phi kMax 1 (z, z)
         else if shape = ''triangle'' then triangle_loop ctx f0 phi kMax 1 (z, z)
         else if shape = ''sawtooth'' then sawtooth_loop ctx f0 phi kMax 1 (z, z)
         else addHarm phi 1 1 (z, z))"
    by (simp_all add: W_def buildPeriodicWave_def Let_def kMax_def z_def phi_def)
  consider "shape = ''square''" | "shape = ''triangle''" | "shape = ''sawtooth''"
    | "shape \<notin> {''square'', ''triangle'', ''sawtooth''}"
    by auto
  then show ?thesis
  proof cases
    case 1
    then show ?thesis using square W unfolding kMax_def [symmetric] by auto
  next
    case 2
    then show ?thesis using triangle W unfolding kMax_def [symmetric] by auto
  next
    case 3
    then show ?thesis using sawtooth W unfolding kMax_def [symmetric] by auto
  next
    case 4
    then have "k = 1" using sine W by auto
    then show ?thesis using 4 k1 unfolding kMax_def [symmetric] by auto
  qed
qed

lemma below_ceiling:
  assumes "2 \<le> k" "int k \<le> harmonic_limit ctx f0 True"
  shows "real k * f0 \<le> 0.9 * (sampleRate ctx / 2) * (1 + 1 / 2 ^ 49)"
proof -
  define sr where "sr = sampleRate ctx"
  define N where "N = binary64 (sr / 2)"
  define M where "M = binary64 (N * binary64 (9 / 10))"
  define m where "m = max 1 f0"
  define Q where "Q = binary64 (M / m)"
  define p where "p = real k * m"
  have m: "1 \<le> m" "f0 \<le> m" by (simp_all add: m_def)
  have "int k \<le> max 1 \<lfloor>Q\<rfloor>"
    using assms(2) by (simp add: harmonic_limit_def Let_def Q_def M_def N_def m_def sr_def)
  then have "int k \<le> \<lfloor>Q\<rfloor>" using assms(1) by simp
  then have kQ: "real k \<le> Q" by (simp add: le_floor_iff)
  have Qpos: "0 < Q" using kQ assms(1) by simp
  have Mm: "0 < M / m" using Qpos unfolding Q_def by (rule binary64_pos_imp_pos)
  then have Mpos: "0 < M" using m(1) by (simp add: zero_less_divide_iff)
  have Nc: "0 < N * binary64 (9 / 10)" using Mpos unfolding M_def by (rule binary64_pos_imp_pos)
  then have Npos: "0 < N" by (simp add: literal_09 zero_less_mult_iff)
  have srpos: "0 < sr / 2" using Npos unfolding N_def by (rule binary64_pos_imp_pos)
  have "Q \<le> M / m + (M / m) / 2 ^ 53 + 1 / 2 ^ 1075"
    unfolding Q_def using Mm by (intro binary64_upper) simp
  then have "real k \<le> M / m + (M / m) / 2 ^ 53 + 1 / 2 ^ 1075" using kQ by linarith
  then have "real k * m \<le> (M / m + (M / m) / 2 ^ 53 + 1 / 2 ^ 1075) * m"
    using m(1) by (intro mult_right_mono) simp_all
  also have "\<dots> = M + M / 2 ^ 53 + m / 2 ^ 1075"
    using m(1) by (simp add: field_simps)
  finally have p1: "p \<le> M + M / 2 ^ 53 + m / 2 ^ 1075" by (simp add: p_def)
  have "2 * m \<le> real k * m" using assms(1) m(1) by (intro mult_right_mono) simp_all
  then have p2: "2 * m \<le> p" by (simp add: p_def)
  have M1: "M \<le> N * (8106479329266893 / 2 ^ 53) + N * (8106479329266893 / 2 ^ 53) / 2 ^ 53 + 1 / 2 ^ 1075"
    unfolding M_def using Nc binary64_upper [of "N * (8106479329266893 / 2 ^ 53)"] by (simp add: literal_09)
  have N1: "N \<le> sr / 2 + (sr / 2) / 2 ^ 53 + 1 / 2 ^ 1075"
    unfolding N_def using srpos by (intro binary64_upper) simp
  have "real k * f0 \<le> real k * m" using m(2) by (intro mult_left_mono) simp_all
  then have p3: "real k * f0 \<le> p" by (simp add: p_def)
  have "p \<le> 0.9 * (sr / 2) * (1 + 1 / 2 ^ 49)"
    using p1 p2 M1 N1 m(1) srpos by simp
  then show ?thesis using p3 by (simp add: sr_def)
qed


lemma rolled_off_nonzero:
  assumes "rolled_off ctx f0 n a \<noteq> 0" "1 \<le> sampleRate ctx" "0 < f0" "1 \<le> n"
  shows "of_int n * f0 \<le> (sampleRate ctx / 2) * (1 + 1 / 2 ^ 48)"
proof -
  define sr where "sr = sampleRate ctx"
  define x where "x = of_int n * f0"
  define N where "N = binary64 (sr / 2)"
  define T where "T = binary64 (N * binary64 (8 / 10))"
  define B where "B = binary64 (N * binary64 (2 / 10))"
  define F where "F = binary64 x"
  have sr: "1 \<le> sr" using assms(2) by (simp add: sr_def)
  have x0: "0 \<le> x" using assms(3,4) by (simp add: x_def)
  have N0: "0 \<le> N" unfolding N_def using sr by (intro binary64_nonneg) simp
  have N1: "N \<le> sr / 2 + (sr / 2) / 2 ^ 53 + 1 / 2 ^ 1075"
    unfolding N_def using sr by (intro binary64_upper) simp
  have T1: "T \<le> N * (3602879701896397 / 2 ^ 52) + N * (3602879701896397 / 2 ^ 52) / 2 ^ 53 + 1 / 2 ^ 1075"
    unfolding T_def using N0 binary64_upper [of "N * (3602879701896397 / 2 ^ 52)"] by (simp add: literal_08)
  have B0: "0 \<le> B" unfolding B_def using N0 by (intro binary64_nonneg) (simp add: literal_02)
  have B1: "B \<le> N * (3602879701896397 / 2 ^ 54) + N * (3602879701896397 / 2 ^ 54) / 2 ^ 53 + 1 / 2 ^ 1075"
    unfolding B_def using N0 binary64_upper [of "N * (3602879701896397 / 2 ^ 54)"] by (simp add: literal_02)
  have F1: "x - x / 2 ^ 53 - 1 / 2 ^ 1075 \<le> F"
    unfolding F_def using x0 by (rule binary64_lower)
  show ?thesis
  proof (cases "F > T")
    case False
    then have "F \<le> T" by simp
    then have "x \<le> (sr / 2) * (1 + 1 / 2 ^ 48)"
      using F1 T1 N1 sr x0 N0 by simp
    then show ?thesis by (simp add: x_def sr_def)
  next
    case True
    define D where "D = binary64 (F - T)"
    define R where "R = binary64 (D / B)"
    have ro: "rolled_off ctx f0 n a = binary64 (a * rolloff_factor F N)"
      using True by (simp add: rolled_off_def Let_def F_def T_def N_def x_def sr_def)
    have fac: "rolloff_factor F N \<noteq> 0"
    proof
      assume "rolloff_factor F N = 0"
      then have "rolled_off ctx f0 n a = 0" by (simp add: ro)
      then show False using assms(1) by simp
    qed
    have Bne: "B \<noteq> 0"
      using fac by (auto simp: rolloff_factor_def B_def)
    then have Bpos: "0 < B" using B0 by simp
    have "max 0 (binary64 (1 - R)) \<noteq> 0"
      using fac Bne by (simp add: rolloff_factor_def Let_def B_def R_def D_def T_def)
    then have "0 < binary64 (1 - R)" by (simp add: max_def split: if_splits)
    then have R1: "R < 1" using binary64_pos_imp_pos [of "1 - R"] by simp
    have D0: "0 \<le> D" unfolding D_def using True by (intro binary64_nonneg) simp
    have D1: "(F - T) - (F - T) / 2 ^ 53 - 1 / 2 ^ 1075 \<le> D"
      unfolding D_def using True by (intro binary64_lower) simp
    have "D / B - (D / B) / 2 ^ 53 - 1 / 2 ^ 1075 \<le> R"
      unfolding R_def using D0 Bpos by (intro binary64_lower) simp
    then have "D / B - (D / B) / 2 ^ 53 - 1 / 2 ^ 1075 < 1" using R1 by linarith
    then have "(D / B - (D / B) / 2 ^ 53 - 1 / 2 ^ 1075) * B < 1 * B"
      using Bpos by (intro mult_strict_right_mono) simp_all
    moreover have "(D / B - (D / B) / 2 ^ 53 - 1 / 2 ^ 1075) * B = D - D / 2 ^ 53 - B / 2 ^ 1075"
      using Bpos by (simp add: field_simps)
    ultimately have DB: "D - D / 2 ^ 53 - B / 2 ^ 1075 < B" by simp
    have s1: "D \<le> B + B / 2 ^ 51"
      using DB B0 D0 by simp
    have s2: "F - T \<le> D + D / 2 ^ 51 + 1 / 2 ^ 1074"
      unfolding D_def using True by (intro binary64_lower_inv) simp
    have s3: "F \<le> T + B + B / 2 ^ 49 + 1 / 2 ^ 1074"
      using s1 s2 B0 D0 by simp
    have s4: "T + B + B / 2 ^ 49 \<le> N + N / 2 ^ 50 + 1 / 2 ^ 1073"
      using T1 B1 N0 B0 by simp
    have s5: "x \<le> F + F / 2 ^ 51 + 1 / 2 ^ 1074"
      unfolding F_def using x0 by (rule binary64_lower_inv)
    have F0: "0 \<le> F" unfolding F_def using x0 by (rule binary64_nonneg)
    have s6: "F \<le> N + N / 2 ^ 50 + 1 / 2 ^ 1072"
      using s3 s4 by simp
    have s7: "x \<le> N + N / 2 ^ 49 + 1 / 2 ^ 1070"
      using s5 s6 F0 N0 by simp
    have "x \<le> (sr / 2) * (1 + 1 / 2 ^ 48)"
      using s7 N1 sr N0 by simp
    then show ?thesis by (simp add: x_def sr_def)
  qed
qed

text \<open>Evaluation at the sample rate 8000 Hz, and the sign of the square coefficients.\<close>

lemma ceiling_8000: "binary64 (4000 * binary64 (9 / 10)) = 3600"
proof -
  have "binary64 (4000 * (8106479329266893 / 2 ^ 53)) =
      of_int (round_even (4000 * (8106479329266893 / 2 ^ 53) / 2 powi (11 - 52))) * 2 powi (11 - 52)"
    by (rule binary64_at) simp_all
  also have "\<dots> = 3600" by (simp add: round_even_def)
  finally show ?thesis by (simp only: literal_09)
qed

lemma rolloff_start_8000: "binary64 (4000 * binary64 (4 / 5)) = 3200"
proof -
  have "binary64 (4000 * (3602879701896397 / 2 ^ 52)) =
      of_int (round_even (4000 * (3602879701896397 / 2 ^ 52) / 2 powi (11 - 52))) * 2 powi (11 - 52)"
    by (rule binary64_at) simp_all
  also have "\<dots> = 3200" by (simp add: round_even_def)
  finally show ?thesis by (simp only: literal_08)
qed

lemma rolloff_band_8000: "binary64 (4000 * binary64 (1 / 5)) = 800"
proof -
  have "binary64 (4000 * (3602879701896397 / 2 ^ 54)) =
      of_int (round_even (4000 * (3602879701896397 / 2 ^ 54) / 2 powi (9 - 52))) * 2 powi (9 - 52)"
    by (rule binary64_at) simp_all
  also have "\<dots> = 800" by (simp add: round_even_def)
  finally show ?thesis by (simp only: literal_02)
qed

lemma harmonic_limit_8000:
  assumes "1 \<le> f0" "real_of_int m + 1 / 1024 \<le> 3600 / f0" "3600 / f0 \<le> real_of_int m + 1023 / 1024"
    "0 \<le> m" "m < 2 ^ 40"
  shows "harmonic_limit \<lparr>ctx_length = n, sampleRate = 8000\<rparr> f0 True = max 1 m"
proof -
  have "\<lfloor>binary64 (3600 / f0)\<rfloor> = m"
    by (rule floor_binary64) (use assms in simp_all)
  moreover have "harmonic_limit \<lparr>ctx_length = n, sampleRate = 8000\<rparr> f0 True =
      max 1 \<lfloor>binary64 (3600 / max 1 f0)\<rfloor>"
    by (simp add: harmonic_limit_def Let_def binary64_numeral ceiling_8000)
  moreover have "max 1 f0 = f0" using assms(1) by simp
  ultimately show ?thesis by simp
qed

lemma Math_PI_bounds: "1 \<le> Math_PI \<and> Math_PI \<le> 8"
proof -
  have p: "2 \<le> pi" "pi \<le> 4" using pi_ge_two pi_less_4 by simp_all
  have "pi - pi / 2 ^ 53 - 1 / 2 ^ 1075 \<le> binary64 pi" by (rule binary64_lower) (use p in simp)
  moreover have "binary64 pi \<le> pi + pi / 2 ^ 53 + 1 / 2 ^ 1075" by (rule binary64_upper) (use p in simp)
  ultimately show ?thesis using p by (simp add: Math_PI_def)
qed

lemma square_scale_pos: "1 / 4 \<le> binary64 (4 / Math_PI)"
proof -
  have "1 / 2 \<le> 4 / Math_PI" using Math_PI_bounds by (simp add: field_simps)
  then have "1 / 2 ^ 1000 \<le> 4 / Math_PI" by (rule order_trans [rotated]) simp
  from binary64_half_le [OF this] \<open>1 / 2 \<le> 4 / Math_PI\<close> show ?thesis by simp
qed

lemma square_partial_pos:
  assumes "1 \<le> n" "n \<le> 1000"
  shows "0 < binary64 (binary64 (4 / Math_PI) * binary64 (1 / of_int n))"
proof -
  have r: "1 / 1000 \<le> 1 / (of_int n :: real)" using assms by (simp add: field_simps)
  then have "1 / 2 ^ 1000 \<le> 1 / (of_int n :: real)" by (rule order_trans [rotated]) simp
  from binary64_half_le [OF this] r have b: "1 / 2000 \<le> binary64 (1 / of_int n)" by simp
  have "1 / 4 * (1 / 2000) \<le> binary64 (4 / Math_PI) * binary64 (1 / of_int n)"
    by (rule mult_mono [OF square_scale_pos b]) (use square_scale_pos in simp_all)
  then have p: "1 / 8000 \<le> binary64 (4 / Math_PI) * binary64 (1 / of_int n)" by simp
  then have "1 / 2 ^ 1000 \<le> binary64 (4 / Math_PI) * binary64 (1 / of_int n)"
    by (rule order_trans [rotated]) simp
  from binary64_half_le [OF this] p show ?thesis by simp
qed

lemma square_1000_coefficient_3:
  "pw_real (buildPeriodicWave \<lparr>ctx_length = 8000, sampleRate = 8000\<rparr> ''square'' 1000 0 True) ! 3
     = binary64 (binary64 (4 / Math_PI) * binary64 (1 / 3)) \<and>
   0 < binary64 (binary64 (4 / Math_PI) * binary64 (1 / 3))"
proof -
  have h: "harmonic_limit \<lparr>ctx_length = 8000, sampleRate = 8000\<rparr> 1000 True = 3"
    using harmonic_limit_8000 [of 1000 3 8000] by simp
  have p3: "0 < binary64 (binary64 (4 / Math_PI) * binary64 (1 / 3))"
    using square_partial_pos [of 3] by simp
  have a3: "square_amplitude \<lparr>ctx_length = 8000, sampleRate = 8000\<rparr> 1000 3
      = binary64 (binary64 (4 / Math_PI) * binary64 (1 / 3))"
    by (simp add: square_amplitude_def rolled_off_def Let_def binary64_numeral rolloff_start_8000)
  show ?thesis
    using p3
    by (simp add: buildPeriodicWave_def h Let_def addHarm_def square_loop.simps a3)
qed

lemma square_3800_coefficient_1:
  "0 < pw_real (buildPeriodicWave \<lparr>ctx_length = 8000, sampleRate = 8000\<rparr> ''square'' 3800 0 True) ! 1"
proof -
  have h: "harmonic_limit \<lparr>ctx_length = 8000, sampleRate = 8000\<rparr> 3800 True = 1"
    using harmonic_limit_8000 [of 3800 0 8000] by simp
  have p1: "0 < binary64 (binary64 (4 / Math_PI) * binary64 (1 / 1))"
    using square_partial_pos [of 1] by simp
  define a where "a = binary64 (binary64 (4 / Math_PI))"
  have a: "0 < a" using p1 by (simp add: a_def)
  have q3: "binary64 (3 / 4) = 3 / 4" using binary64_dyadic [of 3 2] by simp
  have q1: "binary64 (1 / 4) = 1 / 4" using binary64_dyadic [of 1 2] by simp
  have r: "rolloff_factor 3800 4000 = 1 / 4"
    by (simp add: rolloff_factor_def Let_def rolloff_band_8000 rolloff_start_8000 binary64_numeral
        q3 q1)
  have "1 / 2 ^ 1000 \<le> a / 4 \<or> a / 4 < 1 / 2 ^ 1000" by linarith
  have a1: "square_amplitude \<lparr>ctx_length = 8000, sampleRate = 8000\<rparr> 3800 1 = binary64 (a * (1 / 4))"
    by (simp add: square_amplitude_def rolled_off_def Let_def binary64_numeral rolloff_start_8000 r a_def)
  have "1 / 8 \<le> a"
  proof -
    have "1 / 4 \<le> binary64 (4 / Math_PI)" by (rule square_scale_pos)
    then have "1 / 2 ^ 1000 \<le> binary64 (4 / Math_PI)" by (rule order_trans [rotated]) simp
    from binary64_half_le [OF this] square_scale_pos show ?thesis by (simp add: a_def)
  qed
  then have q: "1 / 32 \<le> a * (1 / 4)" by simp
  then have "1 / 2 ^ 1000 \<le> a * (1 / 4)" by (rule order_trans [rotated]) simp
  from binary64_half_le [OF this] q have "0 < binary64 (a * (1 / 4))" by simp
  then show ?thesis
    by (simp add: buildPeriodicWave_def h Let_def addHarm_def square_loop.simps a1)
qed

text \<open>
  The quotient \<open>maxFreq / f0\<close> is rounded before the floor is taken: at 8000 Hz the
  fundamental \<open>211.76470588235296\<close> gets 17 harmonics although 17 times it is above 3600.
\<close>

lemma harmonic_limit_rounds_up:
  "harmonic_limit \<lparr>ctx_length = n, sampleRate = 8000\<rparr> (7450808207046777 / 35184372088832) True = 17 \<and>
   3600 < 17 * (7450808207046777 / 35184372088832 :: real)"
proof -
  have "binary64 (3600 / (7450808207046777 / 35184372088832)) =
      of_int (round_even (3600 / (7450808207046777 / 35184372088832) / 2 powi (4 - 52))) * 2 powi (4 - 52)"
    by (rule binary64_at) simp_all
  also have "\<dots> = 17" by (simp add: round_even_def)
  finally have "\<lfloor>binary64 (3600 / (7450808207046777 / 35184372088832))\<rfloor> = 17" by simp
  moreover have "harmonic_limit \<lparr>ctx_length = n, sampleRate = 8000\<rparr> (7450808207046777 / 35184372088832) True =
      max 1 \<lfloor>binary64 (3600 / max 1 (7450808207046777 / 35184372088832))\<rfloor>"
    by (simp add: harmonic_limit_def Let_def binary64_numeral ceiling_8000)
  moreover have "max 1 (7450808207046777 / 35184372088832 :: real) = 7450808207046777 / 35184372088832"
    by simp
  ultimately show ?thesis by simp
qed

section \<open>Properties of the renderer\<close>

lemma render_waves_standard:
  assumes "\<forall>w \<in> set waves. wave_type w \<noteq> ''piano'' \<and> wave_type w \<noteq> ''violin''"
  shows "snd (render_waves ctx duration anti waves (sources, g)) = g \<and>
         fst (render_waves ctx duration anti waves (sources, g1)) =
         fst (render_waves ctx duration anti waves (sources, g2))"
  using assms
  by (induction waves arbitrary: sources) (simp_all add: Let_def)

text \<open>
  A violin voice does read the generator: on a buffer of one sample, the bow noise of the
  first sample is the eleventh random number of the call (ten go to the phases).
\<close>

lemma violin_reads_generator:
  "fst (createViolinSound \<lparr>ctx_length = 1, sampleRate = 1\<rparr> 440 1 1 (\<lambda>n. 0)) = [- (7 / 2500)] \<and>
   fst (createViolinSound \<lparr>ctx_length = 1, sampleRate = 1\<rparr> 440 1 1
          (\<lambda>n. if n = 10 then 1 / 2 else 0)) = [0]"
  by (simp add: createViolinSound_def Let_def generateADSR_def adsr_phase.simps
      violin_harmonics_def Math_random_def violin_loop.simps violin_sum.simps)

lemma render_violin_depends_on_generator:
  "rendered_buffer
     (renderOfflineFromWaves
        (\<lambda>gr. Normal (concat (map (\<lambda>s. case s of BufferSource d l e a \<Rightarrow> d | Oscillator f a pw \<Rightarrow> [])
                                 (rg_sources gr))))
        1 1 [\<lparr>wave_type = ''violin'', wave_amp = 1, wave_freq = 440, wave_phaseDeg = 0\<rparr>]
        True None (\<lambda>n. 0)) \<noteq>
   rendered_buffer
     (renderOfflineFromWaves
        (\<lambda>gr. Normal (concat (map (\<lambda>s. case s of BufferSource d l e a \<Rightarrow> d | Oscillator f a pw \<Rightarrow> [])
                                 (rg_sources gr))))
        1 1 [\<lparr>wave_type = ''violin'', wave_amp = 1, wave_freq = 440, wave_phaseDeg = 0\<rparr>]
        True None (\<lambda>n. if n = 10 then 1 / 2 else 0))"
proof -
  obtain d1 h1 where v1:
    "createViolinSound \<lparr>ctx_length = 1, sampleRate = 1\<rparr> 440 1 1 (\<lambda>n. 0) = (d1, h1)"
    by (cases "createViolinSound \<lparr>ctx_length = 1, sampleRate = 1\<rparr> 440 1 1 (\<lambda>n. 0)") auto
  obtain d2 h2 where v2:
    "createViolinSound \<lparr>ctx_length = 1, sampleRate = 1\<rparr> 440 1 1
       (\<lambda>n. if n = 10 then 1 / 2 else 0) = (d2, h2)"
    by (cases "createViolinSound \<lparr>ctx_length = 1, sampleRate = 1\<rparr> 440 1 1
          (\<lambda>n. if n = 10 then 1 / 2 else 0)") auto
  have "d1 = [- (7 / 2500)]" "d2 = [0]"
    using violin_reads_generator v1 v2 by simp_all
  then show ?thesis
    using v1 v2 by (simp add: renderOfflineFromWaves_def rendered_buffer_def Let_def)
qed

section \<open>Properties of the quantizer loops\<close>

lemma length_ulaw_loop:
  "ulaw_loop xFloat N i (qF, eF, ul) = (qF', eF', ul') \<Longrightarrow>
   length qF' = length qF \<and> length eF' = length eF \<and> length ul' = length ul"
proof (induction xFloat N i "(qF, eF, ul)" arbitrary: qF eF ul rule: ulaw_loop.induct)
  case (1 xFloat N i qF eF ul)
  show ?case
  proof (cases "i < N")
    case True
    obtain b xRec err where st: "ulaw_step (xFloat ! i) = (b, xRec, err)"
      by (cases "ulaw_step (xFloat ! i)") auto
    have "ulaw_loop xFloat N (Suc i) (qF[i := Num xRec], eF[i := Num err], ul[i := b]) = (qF', eF', ul')"
      using "1.prems" True st by (simp add: ulaw_loop.simps [of xFloat N i])
    from "1.hyps" [OF True st [symmetric] refl this] show ?thesis by simp
  next
    case False
    then show ?thesis using "1.prems" by (simp add: ulaw_loop.simps [of xFloat N i])
  qed
qed

lemma ulaw_loop_keeps_earlier:
  "ulaw_loop xFloat N k (qF, eF, ul) = (qF', eF', ul') \<Longrightarrow> j < k \<Longrightarrow>
   qF' ! j = qF ! j \<and> eF' ! j = eF ! j \<and> ul' ! j = ul ! j"
proof (induction xFloat N k "(qF, eF, ul)" arbitrary: qF eF ul rule: ulaw_loop.induct)
  case (1 xFloat N k qF eF ul)
  show ?case
  proof (cases "k < N")
    case True
    obtain b xRec err where st: "ulaw_step (xFloat ! k) = (b, xRec, err)"
      by (cases "ulaw_step (xFloat ! k)") auto
    have "ulaw_loop xFloat N (Suc k) (qF[k := Num xRec], eF[k := Num err], ul[k := b]) = (qF', eF', ul')"
      using "1.prems"(1) True st by (simp add: ulaw_loop.simps [of xFloat N k])
    from "1.hyps" [OF True st [symmetric] refl this] "1.prems"(2)
    show ?thesis by simp
  next
    case False
    then show ?thesis using "1.prems" by (simp add: ulaw_loop.simps [of xFloat N k])
  qed
qed

lemma nth_ulaw_loop:
  "ulaw_loop xFloat N i (qF, eF, ul) = (qF', eF', ul') \<Longrightarrow>
   N \<le> length qF \<Longrightarrow> N \<le> length eF \<Longrightarrow> N \<le> length ul \<Longrightarrow> i \<le> j \<Longrightarrow> j < N \<Longrightarrow>
   (ul' ! j, qF' ! j, eF' ! j) =
     (case ulaw_step (xFloat ! j) of (b, xRec, err) \<Rightarrow> (b, Num xRec, Num err))"
proof (induction xFloat N i "(qF, eF, ul)" arbitrary: qF eF ul rule: ulaw_loop.induct)
  case (1 xFloat N i qF eF ul)
  have iN: "i < N" using "1.prems" by simp
  obtain b xRec err where st: "ulaw_step (xFloat ! i) = (b, xRec, err)"
    by (cases "ulaw_step (xFloat ! i)") auto
  have run: "ulaw_loop xFloat N (Suc i) (qF[i := Num xRec], eF[i := Num err], ul[i := b]) = (qF', eF', ul')"
    using "1.prems"(1) iN st by (simp add: ulaw_loop.simps [of xFloat N i])
  show ?case
  proof (cases "i = j")
    case True
    from ulaw_loop_keeps_earlier [OF run, of j] True "1.prems" st show ?thesis by simp
  next
    case False
    then have "Suc i \<le> j" using "1.prems" by simp
    from "1.hyps" [OF iN st [symmetric] refl run] this "1.prems" show ?thesis by simp
  qed
qed

lemma length_pcm_loop:
  "pcm_loop xFloat peak dth w N i ((qF, eF, arr), g) = ((qF', eF', arr'), g') \<Longrightarrow>
   length qF' = length qF \<and> length eF' = length eF \<and> length arr' = length arr"
proof (induction xFloat peak dth w N i "((qF, eF, arr), g)" arbitrary: qF eF arr g
    rule: pcm_loop.induct)
  case (1 xFloat peak dth w N i qF eF arr g)
  show ?case
  proof (cases "i < N")
    case True
    obtain a qv err g1 where st: "pcm_step peak dth w (xFloat ! i) g = ((a, qv, err), g1)"
      by (cases "pcm_step peak dth w (xFloat ! i) g") auto
    have "pcm_loop xFloat peak dth w N (Suc i) ((qF[i := qv], eF[i := err], arr[i := a]), g1) =
        ((qF', eF', arr'), g')"
      using "1.prems" True st by (simp add: pcm_loop.simps [of xFloat peak dth w N i])
    from "1.hyps" [OF True st [symmetric] refl refl this] show ?thesis by simp
  next
    case False
    then show ?thesis using "1.prems" by (simp add: pcm_loop.simps [of xFloat peak dth w N i])
  qed
qed





lemma quantize_peak_16: "quantize_peak 16 = Num 32767"
  by (simp add: quantize_peak_def binary64_numeral)

lemma quantize_peak_1: "quantize_peak 1 = Num 0"
  by (simp add: quantize_peak_def)

lemma quantize_peak_60: "quantize_peak 60 = Num (2 ^ 59)"
proof -
  have "binary64 (2 ^ 59 - 1) =
      of_int (round_even ((2 ^ 59 - 1) / 2 powi (58 - 52))) * 2 powi (58 - 52)"
    by (rule binary64_at) simp_all
  also have "\<dots> = 2 ^ 59"
    by (simp add: round_even_def)
  finally show ?thesis
    by (simp add: quantize_peak_def)
qed

lemma quantize_peak_1025: "quantize_peak 1025 = PosInfinity"
  by (simp add: quantize_peak_def)

lemma pcm_step_60_bits:
  "pcm_step (quantize_peak 60) False 32 1 g = ((0, Num 1, Num 0), g)"
proof -
  have "binary64 (2 ^ 59) = 2 ^ 59"
    using binary64_exact [of 1 59] by simp
  then show ?thesis
    by (simp add: quantize_peak_60 pcm_step_def clamp_def Math_round_def ToInt_def Let_def)
qed

lemma pcm_step_1025_bits:
  "pcm_step (quantize_peak 1025) False 32 xi g = ((0, NaN, NaN), g)"
  by (simp add: quantize_peak_1025 pcm_step_def nan_turn_def)

section \<open>The companding formulas\<close>


lemma expand_in_unit:
  assumes "0 \<le> a" "a \<le> 1"
  shows "0 \<le> ((256::real) powr a - 1) / 255" "((256::real) powr a - 1) / 255 \<le> 1"
proof -
  have "1 \<le> (256::real) powr a"
    using assms(1) by (simp add: ge_one_powr_ge_zero)
  then show "0 \<le> ((256::real) powr a - 1) / 255" by simp
  have "(256::real) powr a \<le> 256 powr 1"
    using assms(2) by (intro powr_mono) simp_all
  then show "((256::real) powr a - 1) / 255 \<le> 1" by simp
qed

lemma signMuLawInverse_spec:
  assumes "\<bar>y\<bar> \<le> 1"
  shows "signMuLawInverse y 255 = spec_mulaw_expand y"
proof -
  have b: "0 \<le> ((256::real) powr \<bar>y\<bar> - 1) / 255" "((256::real) powr \<bar>y\<bar> - 1) / 255 \<le> 1"
    using expand_in_unit [of "\<bar>y\<bar>"] assms by simp_all
  show ?thesis
  proof (cases "y < 0")
    case True
    then show ?thesis
      using b by (simp add: signMuLawInverse_def spec_mulaw_expand_def clamp_def Let_def)
  next
    case False
    then show ?thesis
      using b by (cases "y = 0") (simp_all add: signMuLawInverse_def spec_mulaw_expand_def clamp_def Let_def sgn_if)
  qed
qed

lemma compand_range:
  assumes "- 1 \<le> x" "x \<le> 1"
  shows "0 \<le> ln (1 + 255 * \<bar>x\<bar>) / ln 256" "ln (1 + 255 * \<bar>x\<bar>) / ln 256 \<le> (1::real)"
proof -
  have a: "\<bar>x\<bar> \<le> 1" using assms by simp
  have l: "0 < ln (256::real)" by simp
  have "0 \<le> ln (1 + 255 * \<bar>x\<bar>)" by simp
  then show "0 \<le> ln (1 + 255 * \<bar>x\<bar>) / ln 256" using l by simp
  have "ln (1 + 255 * \<bar>x\<bar>) \<le> ln 256"
    using a by simp
  then show "ln (1 + 255 * \<bar>x\<bar>) / ln 256 \<le> (1::real)" using l by simp
qed


lemma byte_store:
  "ToUint8 \<lfloor>clamp (of_int v) 0 255\<rfloor> = max 0 (min 255 v)"
proof -
  have "clamp (of_int v) 0 255 = real_of_int (min 255 (max 0 v))"
    by (simp add: clamp_def min_def max_def)
  then have "\<lfloor>clamp (of_int v) 0 255\<rfloor> = min 255 (max 0 v)"
    by simp
  then show ?thesis
    by (simp add: ToUint8_def min_def max_def)
qed

lemma spec_mulaw_encode_range: "0 \<le> spec_mulaw_encode x \<and> spec_mulaw_encode x \<le> 255"
  by (simp add: spec_mulaw_encode_def)

lemma ulaw_step_spec:
  "ulaw_step xi =
     (spec_mulaw_encode xi, spec_mulaw_decode (spec_mulaw_encode xi),
      clamp xi (- 1) 1 - spec_mulaw_decode (spec_mulaw_encode xi))"
proof -
  define x where "x = clamp xi (- 1) 1"
  have x': "x = max (- 1) (min 1 xi)"
    by (simp add: x_def clamp_def min_def max_def)
  define y where "y = (if x < 0 then - 1 else 1) * (ln (1 + 255 * \<bar>x\<bar>) / ln (1 + 255))"
  have y: "y = spec_mulaw_compand x"
    by (cases "x = 0") (simp_all add: y_def spec_mulaw_compand_def sgn_if)
  define b where "b = ToUint8 \<lfloor>clamp (of_int (Math_round ((y + 1) * 127.5))) 0 255\<rfloor>"
  have b: "b = spec_mulaw_encode xi"
    unfolding b_def byte_store
    by (simp add: spec_mulaw_encode_def y x' [symmetric] Math_round_def round_def)
  have "0 \<le> b" "b \<le> 255"
    using spec_mulaw_encode_range [of xi] b by simp_all
  then have "\<bar>real_of_int b / 127.5 - 1\<bar> \<le> 1"
    by (simp add: abs_le_iff field_simps)
  then have r: "signMuLawInverse (real_of_int b / 127.5 - 1) 255 = spec_mulaw_decode b"
    by (simp add: signMuLawInverse_spec spec_mulaw_decode_def)
  have "ulaw_step xi =
      (b, signMuLawInverse (real_of_int b / 127.5 - 1) 255,
       x - signMuLawInverse (real_of_int b / 127.5 - 1) 255)"
    by (simp add: ulaw_step_def Let_def x_def y_def b_def)
  then have "ulaw_step xi = (b, spec_mulaw_decode b, x - spec_mulaw_decode b)"
    by (simp only: r)
  then show ?thesis
    by (simp only: b x_def)
qed

section \<open>The quantizer as a whole\<close>


lemma quantizeBuffer_mulaw:
  assumes "startsWith (compression opts) mu_letter"
  shows "\<exists>qF eF ul.
     ulaw_loop xFloat (length xFloat) 0
       (replicate (length xFloat) (Num 0), replicate (length xFloat) (Num 0),
        replicate (length xFloat) 0) = (qF, eF, ul) \<and>
     quantizeBuffer xFloat opts g =
       Normal (\<lparr>qFloat = qF, errFloat = eF, pcm = ul,
                encLabel = mu_letter @ ''-law8'', ulaw = Some ul\<rparr>, g)"
proof -
  obtain qF eF ul where run: "ulaw_loop xFloat (length xFloat) 0
       (replicate (length xFloat) (Num 0), replicate (length xFloat) (Num 0),
        replicate (length xFloat) 0) = (qF, eF, ul)"
    using prod_cases3 by blast
  then show ?thesis
    using assms by (simp add: quantizeBuffer_def Let_def)
qed

lemma quantizeBuffer_linear:
  assumes "\<not> startsWith (compression opts) mu_letter"
  shows "\<exists>qF eF arr g'.
     pcm_loop xFloat (quantize_peak (bits opts)) (dither opts)
       (if bits opts = 8 then 8 else if bits opts = 16 then 16 else 32) (length xFloat) 0
       ((replicate (length xFloat) (Num 0), replicate (length xFloat) (Num 0),
         replicate (length xFloat) 0), g) = ((qF, eF, arr), g') \<and>
     quantizeBuffer xFloat opts g =
       Normal (\<lparr>qFloat = qF, errFloat = eF, pcm = arr,
                encLabel = show_int (bits opts) @ ''-bit PCM'', ulaw = None\<rparr>, g')"
proof -
  obtain qF eF arr g' where run: "pcm_loop xFloat (quantize_peak (bits opts)) (dither opts)
       (if bits opts = 8 then 8 else if bits opts = 16 then 16 else 32) (length xFloat) 0
       ((replicate (length xFloat) (Num 0), replicate (length xFloat) (Num 0),
         replicate (length xFloat) 0), g) = ((qF, eF, arr), g')"
    by (metis surj_pair)
  then show ?thesis
    using assms by (simp add: quantizeBuffer_def Let_def)
qed

lemma quantizeBuffer_mulaw_sample:
  assumes "startsWith (compression opts) mu_letter" "i < length xFloat"
  shows "\<exists>r. quantizeBuffer xFloat opts g = Normal (r, g) \<and>
     ulaw r = Some (pcm r) \<and> encLabel r = mu_letter @ ''-law8'' \<and>
     length (pcm r) = length xFloat \<and> length (qFloat r) = length xFloat \<and>
     length (errFloat r) = length xFloat \<and>
     pcm r ! i = spec_mulaw_encode (xFloat ! i) \<and>
     qFloat r ! i = Num (spec_mulaw_decode (spec_mulaw_encode (xFloat ! i))) \<and>
     errFloat r ! i =
       Num (clamp (xFloat ! i) (- 1) 1 - spec_mulaw_decode (spec_mulaw_encode (xFloat ! i)))"
proof -
  from quantizeBuffer_mulaw [OF assms(1), of xFloat g] obtain qF eF ul where
    run: "ulaw_loop xFloat (length xFloat) 0
       (replicate (length xFloat) (Num 0), replicate (length xFloat) (Num 0),
        replicate (length xFloat) 0) = (qF, eF, ul)" and
    res: "quantizeBuffer xFloat opts g =
       Normal (\<lparr>qFloat = qF, errFloat = eF, pcm = ul,
                encLabel = mu_letter @ ''-law8'', ulaw = Some ul\<rparr>, g)"
    by blast
  have "(ul ! i, qF ! i, eF ! i) =
      (case ulaw_step (xFloat ! i) of (b, xRec, err) \<Rightarrow> (b, Num xRec, Num err))"
    using nth_ulaw_loop [OF run, of i] assms(2) by simp
  then have "ul ! i = spec_mulaw_encode (xFloat ! i) \<and>
      qF ! i = Num (spec_mulaw_decode (spec_mulaw_encode (xFloat ! i))) \<and>
      eF ! i = Num (clamp (xFloat ! i) (- 1) 1 - spec_mulaw_decode (spec_mulaw_encode (xFloat ! i)))"
    by (simp add: ulaw_step_spec)
  then show ?thesis using res length_ulaw_loop [OF run] by simp
qed

lemma encode_zero: "spec_mulaw_encode 0 = 128"
  by (simp add: spec_mulaw_encode_def spec_mulaw_compand_def round_def)



lemma root_256_bound: "(256::real) powr (1 / 255) \<le> 5 / 4"
proof -
  have "(256::real) \<le> (5 / 4) ^ 32" by (simp add: power_divide)
  also have "\<dots> \<le> (5 / 4) ^ 255"
    by (rule power_increasing) simp_all
  finally have "(256::real) powr (1 / 255) \<le> ((5 / 4) ^ 255) powr (1 / 255)"
    by (intro powr_mono2) simp_all
  also have "\<dots> = ((5 / 4) powr 255) powr (1 / 255)"
    by simp
  also have "\<dots> = (5 / 4) powr (255 * (1 / 255))"
    by (rule powr_powr)
  also have "\<dots> = 5 / 4"
    by simp
  finally show ?thesis .
qed

lemma decode_128: "0 \<le> spec_mulaw_decode 128 \<and> spec_mulaw_decode 128 \<le> 1 / 1000"
proof -
  have e: "spec_mulaw_decode 128 = ((256::real) powr (1 / 255) - 1) / 255"
    by (simp add: spec_mulaw_decode_def spec_mulaw_expand_def)
  have "1 \<le> (256::real) powr (1 / 255)"
    by (simp add: ge_one_powr_ge_zero)
  then show ?thesis
    using root_256_bound unfolding e by simp
qed

section \<open>Properties of the signal-to-noise ratio\<close>










section \<open>Properties of the DAC reconstruction\<close>

lemma length_dac_loop: "length (dac_loop q fsIn fsOut lin Nout i y) = length y"
  by (induction q fsIn fsOut lin Nout i y rule: dac_loop.induct)
     (subst dac_loop.simps, simp)

lemma nth_dac_loop:
  "Nout \<le> length y \<Longrightarrow> j < Nout \<Longrightarrow>
   dac_loop q fsIn fsOut lin Nout i y ! j =
     (if i \<le> j then dac_sample q fsIn fsOut lin j else y ! j)"
proof (induction q fsIn fsOut lin Nout i y rule: dac_loop.induct)
  case (1 q fsIn fsOut lin Nout i y)
  show ?case
  proof (cases "i < Nout")
    case True
    then show ?thesis
      using "1.IH" [OF True] "1.prems"
      by (subst dac_loop.simps, cases "i = j") (auto simp: nth_list_update)
  next
    case False
    then show ?thesis using "1.prems" by (subst dac_loop.simps) simp
  qed
qed

lemma binary64_three_quarters: "binary64 (3 / 4) = 3 / 4"
  using binary64_dyadic [of 3 2] by simp

lemma binary64_three_halves: "binary64 (3 / 2) = 3 / 2"
  using binary64_dyadic [of 3 1] by simp

section \<open>Claim on the band limit\<close>

text \<open>
  Claim C1, as amended. For every shape, every fundamental frequency above 0 and every
  sample rate, when \<open>limitHarmonics\<close> is true every harmonic \<open>k\<close> with a nonzero coefficient
  in the spectrum of \<open>buildPeriodicWave\<close> lies in \<open>1 \<le> k \<le> kMax\<close>. A harmonic \<open>k \<ge> 2\<close>
  satisfies \<open>k * fundamental \<le> 0.9 * (sampleRate / 2)\<close> up to the rounding of the engine's
  quotient, a relative \<open>2\<^sup>-\<^sup>4\<^sup>9\<close>. The fundamental \<open>k = 1\<close> is not held to that ceiling,
  since \<open>kMax\<close> is at least 1: for a square, a triangle and a sawtooth at a sample rate of at
  least 1 Hz the roll-off removes every harmonic above \<open>sampleRate / 2\<close>, again up to a relative
  \<open>2\<^sup>-\<^sup>4\<^sup>8\<close>; a sine, and any other shape name, has the harmonic 1 only, at every frequency.
\<close>

theorem harmonics_under_ceiling:
  assumes "0 < f0"
    and "k < length (pw_real (buildPeriodicWave ctx shape f0 phaseDeg True))"
    and "pw_real (buildPeriodicWave ctx shape f0 phaseDeg True) ! k \<noteq> 0 \<or>
         pw_imag (buildPeriodicWave ctx shape f0 phaseDeg True) ! k \<noteq> 0"
  shows "1 \<le> k \<and> int k \<le> harmonic_limit ctx f0 True \<and>
         (2 \<le> k \<longrightarrow> real k * f0 \<le> 0.9 * (sampleRate ctx / 2) * (1 + 1 / 2 ^ 49)) \<and>
         (shape \<in> {''square'', ''triangle'', ''sawtooth''} \<and> 1 \<le> sampleRate ctx \<longrightarrow>
            real k * f0 \<le> sampleRate ctx / 2 * (1 + 1 / 2 ^ 48)) \<and>
         (shape \<notin> {''square'', ''triangle'', ''sawtooth''} \<longrightarrow> k = 1)"
proof -
  have len: "k < nat (max (harmonic_limit ctx f0 True + 1) 8192)"
    using assms(2) length_buildPeriodicWave [of ctx shape f0 phaseDeg True] by simp
  note s = buildPeriodicWave_support [OF len assms(3)]
  from s have k: "1 \<le> k" "int k \<le> harmonic_limit ctx f0 True"
    by simp_all
  have far: "real k * f0 \<le> 0.9 * (sampleRate ctx / 2) * (1 + 1 / 2 ^ 49)" if "2 \<le> k"
    using below_ceiling [OF that k(2)] by simp
  have kn: "1 \<le> int k" using k(1) by simp
  have t0: "0 \<le> binary64 0.00001" by (rule binary64_nonneg) simp
  have near: "real k * f0 \<le> sampleRate ctx / 2 * (1 + 1 / 2 ^ 48)"
    if shape: "shape \<in> {''square'', ''triangle'', ''sawtooth''}" and sr: "1 \<le> sampleRate ctx"
  proof -
    have "\<exists>a. rolled_off ctx f0 (int k) a \<noteq> 0"
    proof -
      consider "shape = ''square''" | "shape = ''triangle''" | "shape = ''sawtooth''"
        using shape by auto
      then show ?thesis
      proof cases
        case 1
        with s have "0 < square_amplitude ctx f0 (int k)" by simp
        then obtain a where "rolled_off ctx f0 (int k) a \<noteq> 0"
          unfolding square_amplitude_def Let_def by fastforce
        then show ?thesis ..
      next
        case 2
        with s have "binary64 0.00001 < \<bar>triangle_amplitude ctx f0 (int k)\<bar>" by blast
        with t0 have "triangle_amplitude ctx f0 (int k) \<noteq> 0" by linarith
        then obtain a where "rolled_off ctx f0 (int k) a \<noteq> 0"
          unfolding triangle_amplitude_def Let_def by fastforce
        then show ?thesis ..
      next
        case 3
        with s have "binary64 0.00001 < \<bar>sawtooth_amplitude ctx f0 (int k)\<bar>" by blast
        with t0 have "sawtooth_amplitude ctx f0 (int k) \<noteq> 0" by linarith
        then obtain a where "rolled_off ctx f0 (int k) a \<noteq> 0"
          unfolding sawtooth_amplitude_def Let_def by fastforce
        then show ?thesis ..
      qed
    qed
    then obtain a where "rolled_off ctx f0 (int k) a \<noteq> 0" ..
    from rolled_off_nonzero [OF this sr assms(1) kn] show ?thesis by simp
  qed
  from s k far near show ?thesis by simp
qed

theorem harmonics_under_ceiling_witness:
  "(0::real) < 1000 \<and>
   3 < length (pw_real (buildPeriodicWave \<lparr>ctx_length = 8000, sampleRate = 8000\<rparr>
                 ''square'' 1000 0 True)) \<and>
   pw_real (buildPeriodicWave \<lparr>ctx_length = 8000, sampleRate = 8000\<rparr> ''square'' 1000 0 True) ! 3
     \<noteq> 0 \<and>
   int 3 \<le> harmonic_limit \<lparr>ctx_length = 8000, sampleRate = 8000\<rparr> 1000 True \<and>
   real 3 * 1000 \<le> 0.9 * (sampleRate \<lparr>ctx_length = 8000, sampleRate = 8000\<rparr> / 2) * (1 + 1 / 2 ^ 49) \<and>
   real 3 * 1000 \<le> sampleRate \<lparr>ctx_length = 8000, sampleRate = 8000\<rparr> / 2 * (1 + 1 / 2 ^ 48)"
proof -
  define W where
    "W = buildPeriodicWave \<lparr>ctx_length = 8000, sampleRate = 8000\<rparr> ''square'' 1000 0 True"
  have f: "(0::real) < 1000" by simp
  have l: "3 < length (pw_real W)"
    unfolding W_def using length_buildPeriodicWave [of _ "''square''" 1000 0 True] by simp
  have v: "pw_real W ! 3 \<noteq> 0"
    unfolding W_def using square_1000_coefficient_3 by simp
  then have nz: "pw_real W ! 3 \<noteq> 0 \<or> pw_imag W ! 3 \<noteq> 0"
    by simp
  from harmonics_under_ceiling [OF f l [unfolded W_def] nz [unfolded W_def]] f l v
  show ?thesis
    unfolding W_def by simp
qed

text \<open>
  The claim as written fails on a fundamental between \<open>0.9 * (sampleRate / 2)\<close> and the
  sample rate's half: at 8000 Hz a sine of 3900 Hz keeps its harmonic 1 with coefficient 1,
  and a square of 3800 Hz keeps its harmonic 1 with a rolled-off coefficient above 0,
  both above the ceiling of 3600 Hz.
\<close>

theorem fundamental_above_ceiling_kept:
  "pw_real (buildPeriodicWave \<lparr>ctx_length = 8000, sampleRate = 8000\<rparr> ''sine'' 3900 0 True) ! 1 = 1 \<and>
   \<not> (real 1 * 3900 \<le> 0.9 * (sampleRate \<lparr>ctx_length = 8000, sampleRate = 8000\<rparr> / 2)) \<and>
   0 < pw_real (buildPeriodicWave \<lparr>ctx_length = 8000, sampleRate = 8000\<rparr> ''square'' 3800 0 True) ! 1 \<and>
   \<not> (real 1 * 3800 \<le> 0.9 * (sampleRate \<lparr>ctx_length = 8000, sampleRate = 8000\<rparr> / 2))"
proof -
  have "pw_real (buildPeriodicWave \<lparr>ctx_length = 8000, sampleRate = 8000\<rparr> ''sine'' 3900 0 True) ! 1 = 1"
    by (simp add: buildPeriodicWave_def Let_def addHarm_def)
  then show ?thesis
    using square_3800_coefficient_1 by simp
qed

section \<open>Claim on the renderer\<close>

text \<open>
  Claim C9. Two calls of \<open>renderOfflineFromWaves\<close> with the same duration, sample rate,
  filter setting and list of waveforms, none of them a piano or a violin voice, produce the
  same output buffer: whatever the state of the random generator at each call, the graph
  handed to the platform is the same, and so is what the platform renders from it.
\<close>

theorem render_standard_shapes_deterministic:
  assumes "\<forall>w \<in> set waves. wave_type w \<noteq> ''piano'' \<and> wave_type w \<noteq> ''violin''"
  shows "rendered_buffer
           (renderOfflineFromWaves startRendering duration sr waves anti filter_opt g1) =
         rendered_buffer
           (renderOfflineFromWaves startRendering duration sr waves anti filter_opt g2)"
proof -
  define ctx where "ctx = \<lparr>ctx_length = \<lceil>duration * sr\<rceil>, sampleRate = sr\<rparr>"
  obtain s1 h1 where r1: "render_waves ctx duration anti waves ([], g1) = (s1, h1)"
    by (cases "render_waves ctx duration anti waves ([], g1)") auto
  obtain s2 h2 where r2: "render_waves ctx duration anti waves ([], g2) = (s2, h2)"
    by (cases "render_waves ctx duration anti waves ([], g2)") auto
  have "s1 = s2"
    using render_waves_standard [OF assms, of ctx duration anti "[]" g1 g1 g2] r1 r2 by simp
  then show ?thesis
    using r1 r2
    by (simp add: renderOfflineFromWaves_def rendered_buffer_def Let_def ctx_def [symmetric]
        split: completion.splits)
qed

theorem render_standard_shapes_deterministic_witness:
  "wave_type \<lparr>wave_type = ''square'', wave_amp = 1, wave_freq = 440, wave_phaseDeg = 0\<rparr> \<noteq> ''piano'' \<and>
   wave_type \<lparr>wave_type = ''square'', wave_amp = 1, wave_freq = 440, wave_phaseDeg = 0\<rparr> \<noteq> ''violin'' \<and>
   rendered_buffer
     (renderOfflineFromWaves
        (\<lambda>gr. Normal (replicate (nat (ctx_length (rg_context gr))) (real (length (rg_sources gr)))))
        1 8000 [\<lparr>wave_type = ''square'', wave_amp = 1, wave_freq = 440, wave_phaseDeg = 0\<rparr>]
        True None (\<lambda>n. 0)) =
   rendered_buffer
     (renderOfflineFromWaves
        (\<lambda>gr. Normal (replicate (nat (ctx_length (rg_context gr))) (real (length (rg_sources gr)))))
        1 8000 [\<lparr>wave_type = ''square'', wave_amp = 1, wave_freq = 440, wave_phaseDeg = 0\<rparr>]
        True None (\<lambda>n. 1 / 2))"
proof -
  have h: "\<forall>w \<in> set [\<lparr>wave_type = ''square'', wave_amp = 1, wave_freq = 440, wave_phaseDeg = 0\<rparr>].
      wave_type w \<noteq> ''piano'' \<and> wave_type w \<noteq> ''violin''"
    by simp
  from render_standard_shapes_deterministic [OF h] show ?thesis
    by simp
qed

section \<open>Claims on the quantizer\<close>




text \<open>
  Claim C3. For every input signal and every mode (linear PCM at any bit depth, with or
  without dither, or \<open>\<mu>\<close>-law), \<open>quantizeBuffer\<close> returns a reconstructed float buffer and an
  error buffer whose lengths both equal the input length (and so does the coded buffer).
\<close>

theorem quantize_lengths_equal_input:
  "\<exists>r g'. quantizeBuffer xFloat opts g = Normal (r, g') \<and>
     length (qFloat r) = length xFloat \<and> length (errFloat r) = length xFloat \<and>
     length (pcm r) = length xFloat"
proof (cases "startsWith (compression opts) mu_letter")
  case True
  from quantizeBuffer_mulaw [OF True, of xFloat g] obtain qF eF ul where
    run: "ulaw_loop xFloat (length xFloat) 0
       (replicate (length xFloat) (Num 0), replicate (length xFloat) (Num 0),
        replicate (length xFloat) 0) = (qF, eF, ul)" and
    res: "quantizeBuffer xFloat opts g =
       Normal (\<lparr>qFloat = qF, errFloat = eF, pcm = ul,
                encLabel = mu_letter @ ''-law8'', ulaw = Some ul\<rparr>, g)"
    by blast
  from length_ulaw_loop [OF run] res show ?thesis by simp
next
  case False
  from quantizeBuffer_linear [OF False, of xFloat g] obtain qF eF arr g' where
    run: "pcm_loop xFloat (quantize_peak (bits opts)) (dither opts)
       (if bits opts = 8 then 8 else if bits opts = 16 then 16 else 32) (length xFloat) 0
       ((replicate (length xFloat) (Num 0), replicate (length xFloat) (Num 0),
         replicate (length xFloat) 0), g) = ((qF, eF, arr), g')" and
    res: "quantizeBuffer xFloat opts g =
       Normal (\<lparr>qFloat = qF, errFloat = eF, pcm = arr,
                encLabel = show_int (bits opts) @ ''-bit PCM'', ulaw = None\<rparr>, g')"
    by blast
  from length_pcm_loop [OF run] res show ?thesis by simp
qed

theorem quantize_lengths_equal_input_witness:
  "\<exists>r g'. quantizeBuffer [1 / 2, - 2, 3 / 10] \<lparr>bits = 16, dither = True, compression = ''None''\<rparr>
            (\<lambda>n. 1 / 4) = Normal (r, g') \<and>
     length (qFloat r) = 3 \<and> length (errFloat r) = 3 \<and> length (pcm r) = 3"
  using quantize_lengths_equal_input
    [of "[1 / 2, - 2, 3 / 10]" "\<lparr>bits = 16, dither = True, compression = ''None''\<rparr>" "\<lambda>n. 1 / 4"]
  by (simp add: eval_nat_numeral)

text \<open>
  Claim C5. The \<open>\<mu>\<close>-law path applied to the sample \<open>0.0\<close> encodes it as the byte 128 and
  reconstructs a float within \<open>1e-3\<close> of \<open>0.0\<close>.
\<close>

theorem mulaw_round_trip_zero:
  assumes "startsWith (compression opts) mu_letter"
  shows "\<exists>r v. quantizeBuffer [0] opts g = Normal (r, g) \<and> pcm r = [128] \<and>
     qFloat r = [Num v] \<and> \<bar>v - 0\<bar> \<le> 1 / 1000"
proof -
  have l: "0 < length [0 :: real]" by simp
  from quantizeBuffer_mulaw_sample [OF assms l, of g] obtain r where
    r: "quantizeBuffer [0] opts g = Normal (r, g)"
      "length (pcm r) = 1" "length (qFloat r) = 1"
      "pcm r ! 0 = 128" "qFloat r ! 0 = Num (spec_mulaw_decode 128)"
    by (auto simp: encode_zero)
  have one: "\<And>xs :: 'a list. length xs = 1 \<Longrightarrow> xs = [xs ! 0]"
    by (metis One_nat_def length_0_conv length_Suc_conv nth_Cons_0)
  have "pcm r = [128]" "qFloat r = [Num (spec_mulaw_decode 128)]"
    using one [of "pcm r"] one [of "qFloat r"] r by simp_all
  moreover have "\<bar>spec_mulaw_decode 128 - 0\<bar> \<le> 1 / 1000"
    using decode_128 by simp
  ultimately show ?thesis
    using r(1) by blast
qed

theorem mulaw_round_trip_zero_witness:
  "startsWith (mu_letter @ ''-law'') mu_letter \<and>
   (\<exists>r v. quantizeBuffer [0] \<lparr>bits = 8, dither = False, compression = mu_letter @ ''-law''\<rparr>
             (\<lambda>n. 0) = Normal (r, (\<lambda>n. 0)) \<and>
          pcm r = [128] \<and> qFloat r = [Num v] \<and> \<bar>v - 0\<bar> \<le> 1 / 1000)"
proof -
  have p: "startsWith (compression \<lparr>bits = 8, dither = False, compression = mu_letter @ ''-law''\<rparr>)
      mu_letter"
    by (simp add: startsWith_def)
  from mulaw_round_trip_zero [OF p, of "\<lambda>n. 0"] show ?thesis
    by (simp add: startsWith_def)
qed




section \<open>Claim on the signal-to-noise ratio\<close>




section \<open>Claims on the DAC reconstruction\<close>

text \<open>
  Claim C6. Zero-order hold of the single-sample source \<open>[1.0]\<close> at input rate 1 and output
  rate 4 returns \<open>floor ((1 / 1) * 4) = 4\<close> samples, each equal to \<open>1.0\<close>.
\<close>

theorem zero_order_hold_single_sample:
  "reconstructDAC [1] 1 4 ''ZeroOrderHold'' = Normal [1, 1, 1, 1]"
  by (simp add: reconstructDAC_def startsWith_def Let_def fl_def binary64_numeral dac_loop.simps
      dac_sample_def dac_position_def dac_out_of_bounds_def binary64_half binary64_quarter
      binary64_three_quarters eval_nat_numeral)

theorem zero_order_hold_single_sample_witness:
  "reconstructDAC [1] 1 4 ''ZeroOrderHold'' = Normal (replicate (nat \<lfloor>(1 / 1) * (4::real)\<rfloor>) 1)"
  using zero_order_hold_single_sample by (simp add: numeral_eq_Suc)

text \<open>
  Claim C7. Linear reconstruction of the source \<open>[0.0, 1.0]\<close> at input rate 2 and output
  rate 4 returns four samples; the sample at output index \<open>i\<close> is the linear interpolation of
  the specification at the source position \<open>(i / 4) * 2\<close>, the final source sample being held,
  and the sample at the midpoint between the two source samples (output index 1, source
  position \<open>1 / 2\<close>) is \<open>0.5\<close>.
\<close>

theorem linear_interpolation_two_samples:
  "reconstructDAC [0, 1] 2 4 ''Linear'' = Normal [0, 1 / 2, 1, 1] \<and>
   [0, 1 / 2, 1, 1] = map (\<lambda>i. spec_linear_interp [0, 1] ((real i / 4) * 2)) [0 ..< 4]"
proof
  show "reconstructDAC [0, 1] 2 4 ''Linear'' = Normal [0, 1 / 2, 1, 1]"
    by (simp add: reconstructDAC_def startsWith_def Let_def fl_def binary64_numeral dac_loop.simps
        dac_sample_def dac_position_def dac_out_of_bounds_def binary64_half binary64_quarter
        binary64_three_quarters binary64_three_halves eval_nat_numeral)
  show "[0, 1 / 2, 1, 1] = map (\<lambda>i. spec_linear_interp [0, 1] ((real i / 4) * 2)) [0 ..< 4]"
    by (simp add: spec_linear_interp_def upt_conv_Cons frac_def)
qed

theorem linear_interpolation_two_samples_witness:
  "(\<exists>y. reconstructDAC [0, 1] 2 4 ''Linear'' = Normal y \<and> length y = 4 \<and> y ! 1 = 1 / 2)"
proof -
  have "reconstructDAC [0, 1] 2 4 ''Linear'' = Normal [0, 1 / 2, 1, 1]"
    using linear_interpolation_two_samples by (rule conjunct1)
  then show ?thesis by simp
qed

end
